theory Spec2Isabelle
  imports Main "HOL-Library.Word"
begin

unbundle bit_operations_syntax

section \<open>Machine integers and the wire layout\<close>

type_synonym u8 = "8 word"
type_synonym u16 = "16 word"
type_synonym u32 = "32 word"
type_synonym u64 = "64 word"

text \<open>
  The wire structures of \<^verbatim>\<open>main.cpp\<close> are packed (\<^verbatim>\<open>#pragma pack(push, 1)\<close>) and are
  filled and read in place on a little-endian host.  A field write is the list of
  its bytes, lowest first; a field read takes the bytes back out of the buffer.
\<close>

definition le16 :: "u16 \<Rightarrow> u8 list" where
  "le16 v = [ucast v, ucast (drop_bit 8 v)]"

definition le32 :: "u32 \<Rightarrow> u8 list" where
  "le32 v = [ucast v, ucast (drop_bit 8 v), ucast (drop_bit 16 v), ucast (drop_bit 24 v)]"

definition le64 :: "u64 \<Rightarrow> u8 list" where
  "le64 v = [ucast v, ucast (drop_bit 8 v), ucast (drop_bit 16 v), ucast (drop_bit 24 v),
             ucast (drop_bit 32 v), ucast (drop_bit 40 v), ucast (drop_bit 48 v),
             ucast (drop_bit 56 v)]"

text \<open>
  A receive buffer is \<^verbatim>\<open>std::array<uint8_t, TY_UVCP_MAX_MSG_LEN> buffer{}\<close>: all zero
  until a transfer overwrites a prefix of it.  The model keeps the overwritten prefix
  only; a byte behind it reads as the zero the array was initialised with.  Offsets
  from 65536 on are outside the array (C++ leaves such a read undefined); the model
  reads zero there as well, and only \<^verbatim>\<open>readMemory\<close> with more than 65524 bytes gets
  there.
\<close>

definition buf_at :: "u8 list \<Rightarrow> nat \<Rightarrow> u8" where
  "buf_at buf i = (if i < length buf then buf ! i else 0)"

definition rd16 :: "u8 list \<Rightarrow> nat \<Rightarrow> u16" where
  "rd16 buf off = ucast (buf_at buf off) OR push_bit 8 (ucast (buf_at buf (off + 1)))"

definition rd32 :: "u8 list \<Rightarrow> nat \<Rightarrow> u32" where
  "rd32 buf off = ucast (buf_at buf off) OR push_bit 8 (ucast (buf_at buf (off + 1)))
     OR push_bit 16 (ucast (buf_at buf (off + 2))) OR push_bit 24 (ucast (buf_at buf (off + 3)))"

definition TY_UVCP_MAX_MSG_LEN :: nat where
  "TY_UVCP_MAX_MSG_LEN = 65536"

definition MAGIC :: u32 where
  "MAGIC = 0x43563355"

definition FLAGS_REQUEST_ACK :: u16 where
  "FLAGS_REQUEST_ACK = push_bit 14 1"

definition COMMAND_READ_MEMORY_CMD :: u16 where
  "COMMAND_READ_MEMORY_CMD = 0x0800"

definition COMMAND_READ_MEMORY_ACK :: u16 where
  "COMMAND_READ_MEMORY_ACK = 0x0801"

definition COMMAND_WRITE_MEMORY_CMD :: u16 where
  "COMMAND_WRITE_MEMORY_CMD = 0x0802"

definition COMMAND_WRITE_MEMORY_ACK :: u16 where
  "COMMAND_WRITE_MEMORY_ACK = 0x0803"

definition COMMAND_PENDING_ACK :: u16 where
  "COMMAND_PENDING_ACK = 0x0805"

text \<open>
  \<^verbatim>\<open>UVCPHeader\<close> is \<^verbatim>\<open>{magic:u32, flags:u16, command:u16, size:u16, id:u16}\<close>, twelve
  bytes.  The command-specific fields follow at offset 12.
\<close>

definition UVCPHeader :: "u32 \<Rightarrow> u16 \<Rightarrow> u16 \<Rightarrow> u16 \<Rightarrow> u16 \<Rightarrow> u8 list" where
  "UVCPHeader magic flags command size' ident =
     le32 magic @ le16 flags @ le16 command @ le16 size' @ le16 ident"

definition hdr_magic :: "u8 list \<Rightarrow> u32" where
  "hdr_magic buf = rd32 buf 0"

definition hdr_command :: "u8 list \<Rightarrow> u16" where
  "hdr_command buf = rd16 buf 6"

definition hdr_size :: "u8 list \<Rightarrow> u16" where
  "hdr_size buf = rd16 buf 8"

definition hdr_id :: "u8 list \<Rightarrow> u16" where
  "hdr_id buf = rd16 buf 10"

text \<open>\<^verbatim>\<open>UVCPPendingAck::timeout_ms\<close> and \<^verbatim>\<open>UVCPWriteMemoryAck::bytes_written\<close>
  both sit behind a 16-bit \<^verbatim>\<open>unknown\<close> field, at offset 14.\<close>

definition pending_timeout_ms :: "u8 list \<Rightarrow> u16" where
  "pending_timeout_ms buf = rd16 buf 14"

definition ack_bytes_written :: "u8 list \<Rightarrow> u16" where
  "ack_bytes_written buf = rd16 buf 14"

section \<open>Failures\<close>

text \<open>
  Every function of the program returns \<^verbatim>\<open>bool\<close> and prints a diagnostic where it
  gives up.  The model returns the place that gave up as a value: one constructor for
  each diagnostic, named after the error kinds of the specification where it has a
  name for them.  \<open>NeverReturns\<close> is no diagnostic: it stands for a call that does not
  come back at all (the copy loop of \<^verbatim>\<open>sendCommand\<close> with a chunk size of zero).
\<close>

datatype err =
    NotClaimed
  | BulkOutFailed
  | BulkInFailed
  | BulkInEmpty
  | BadMagic
  | IdMismatch u16 u16
  | TooManyPending
  | UnexpectedCommand u16
  | SizeMismatch u16 u16
  | BadTerminalMagic u32
  | AuthRequired
  | AuthFailed
  | SessionTimeout
  | PathRequired
  | PathTooLong
  | FileOpenTimeout
  | FileError u32
  | LocalOpenFailed
  | LocalWriteFailed
  | StdinRawFailed
  | NeverReturns

section \<open>The state of the process and of its surroundings\<close>

text \<open>
  One bulk IN transfer of the script: how long it took on the clock and what came of
  it.  \<open>InError\<close> is \<^verbatim>\<open>rc != LIBUSB_SUCCESS\<close>; \<open>InData d\<close> is a successful transfer of
  the bytes \<open>d\<close>.
\<close>

datatype bulk_in = InError | InData "u8 list"

text \<open>One look at standard input in the byte-wise loop: nothing within the 20 ms of
  \<^verbatim>\<open>select\<close>, or a \<^verbatim>\<open>read\<close> that returned these bytes after so many milliseconds.\<close>

datatype stdin_poll = NoInput | Input nat string

text \<open>
  The fields of \<^verbatim>\<open>U3VDevice\<close> (\<open>claimed\<close>, \<open>requestId\<close>) and of \<^verbatim>\<open>TerminalClient\<close>
  (\<open>initialized\<close> to \<open>echoEnabled\<close>), and what the process can observe of its
  surroundings:
  \<^item> \<open>bulk_in_script\<close>: the bulk IN transfers still to come, in order; when the script
    is used up the device has stopped answering and a transfer times out;
  \<^item> \<open>bulk_out_log\<close>: every buffer handed to a bulk OUT transfer, oldest first;
    \<open>bulk_out_ok k\<close> tells whether the \<open>k\<close>-th of them goes through;
  \<^item> \<open>clock\<close>: \<^verbatim>\<open>steady_clock::now()\<close> in milliseconds; it advances by the time the
    script gives to a transfer and by every sleep, which \<open>sleeps\<close> also records;
  \<^item> \<open>stdin_lines\<close>, \<open>stdin_polls\<close>: standard input as \<^verbatim>\<open>getline\<close> and as the
    byte-wise loop see it; \<open>stdin_raw_ok\<close>: whether the terminal can be put in raw
    mode; \<open>stdin_raw\<close>: whether it is;
  \<^item> \<open>stdout_log\<close>: what was written to standard output from the device; the
    diagnostics on standard error and the progress lines of a transfer are not kept,
    a failure is the value a function returns;
  \<^item> \<open>local_files\<close>: the local files that can be opened for reading, with their
    contents; \<open>local_writable\<close>: the paths that can be opened for writing;
    \<open>local_write_ok p n\<close>: whether the stream to \<open>p\<close> is still good once \<open>n\<close> bytes
    are written; \<open>local_written\<close>: the files written, newest first.
\<close>

record sys =
  claimed :: bool
  requestId :: u16
  initialized :: bool
  version :: u32
  chunkHint :: u32
  password :: string
  echoEnabled :: bool
  bulk_in_script :: "(nat \<times> bulk_in) list"
  bulk_out_log :: "u8 list list"
  bulk_out_ok :: "nat \<Rightarrow> bool"
  clock :: nat
  sleeps :: "nat list"
  stdin_lines :: "string list"
  stdin_polls :: "stdin_poll list"
  stdin_raw_ok :: bool
  stdin_raw :: bool
  stdout_log :: "u8 list"
  local_files :: "string \<Rightarrow> u8 list option"
  local_writable :: "string \<Rightarrow> bool"
  local_write_ok :: "string \<Rightarrow> nat \<Rightarrow> bool"
  local_written :: "(string \<times> u8 list) list"

type_synonym 'a result = "(err + 'a) \<times> sys"

definition kTransferTimeoutMs :: nat where
  "kTransferTimeoutMs = 10000"

definition sleep_for :: "nat \<Rightarrow> sys \<Rightarrow> sys" where
  "sleep_for ms s = s\<lparr>clock := clock s + ms, sleeps := sleeps s @ [ms]\<rparr>"

section \<open>U3VDevice: the bulk channel\<close>

text \<open>\<^verbatim>\<open>bulkSend\<close>: fails when the transfer fails or is short.\<close>

definition bulkSend :: "u8 list \<Rightarrow> sys \<Rightarrow> unit result" where
  "bulkSend data s =
     (let ok = bulk_out_ok s (length (bulk_out_log s));
          s' = s\<lparr>bulk_out_log := bulk_out_log s @ [data]\<rparr>
      in if ok then (Inr (), s') else (Inl BulkOutFailed, s'))"

text \<open>
  \<^verbatim>\<open>bulkReceive\<close> into \<open>buffer\<close>: the transferred bytes overwrite the front of the
  buffer and the rest of it stays.  A transfer longer than the buffer is an overflow
  error of the USB library, one of no bytes is refused by \<^verbatim>\<open>transferred <= 0\<close>.
\<close>

definition bulkReceive :: "u8 list \<Rightarrow> sys \<Rightarrow> (u8 list) result" where
  "bulkReceive buffer s =
     (case bulk_in_script s of
        [] \<Rightarrow> (Inl BulkInFailed, s\<lparr>clock := clock s + kTransferTimeoutMs\<rparr>)
      | (ms, ev) # rest \<Rightarrow>
          (let s' = s\<lparr>bulk_in_script := rest, clock := clock s + ms\<rparr>
           in case ev of
                InError \<Rightarrow> (Inl BulkInFailed, s')
              | InData d \<Rightarrow>
                  if TY_UVCP_MAX_MSG_LEN < length d then (Inl BulkInFailed, s')
                  else if d = [] then (Inl BulkInEmpty, s')
                  else (Inr (d @ drop (length d) buffer), s')))"

definition nextRequestId :: "sys \<Rightarrow> u16 \<times> sys" where
  "nextRequestId s = (requestId s + 1, s\<lparr>requestId := requestId s + 1\<rparr>)"

definition kMaxPendingLoops :: nat where
  "kMaxPendingLoops = 5"

subsection \<open>readMemory\<close>

text \<open>The \<^verbatim>\<open>while (true)\<close> of \<^verbatim>\<open>readMemory\<close>, from the receive on.  \<open>ident\<close> is
  \<^verbatim>\<open>cmd.header.id\<close>.\<close>

function readMemory_loop :: "u16 \<Rightarrow> u16 \<Rightarrow> nat \<Rightarrow> u8 list \<Rightarrow> sys \<Rightarrow> (u8 list) result" where
  "readMemory_loop bytes ident pendingLoops buffer s =
     (case bulkReceive buffer s of
        (Inl e, s1) \<Rightarrow> (Inl e, s1)
      | (Inr buf, s1) \<Rightarrow>
          if hdr_magic buf \<noteq> MAGIC then (Inl BadMagic, s1)
          else if hdr_id buf \<noteq> ident then (Inl (IdMismatch (hdr_id buf) ident), s1)
          else if hdr_command buf = COMMAND_PENDING_ACK then
            (let waitMs = pending_timeout_ms buf
             in if kMaxPendingLoops < pendingLoops + 1 then (Inl TooManyPending, s1)
                else readMemory_loop bytes ident (pendingLoops + 1) buf
                       (sleep_for (if waitMs \<noteq> 0 then unat waitMs else 1) s1))
          else if hdr_command buf \<noteq> COMMAND_READ_MEMORY_ACK
            then (Inl (UnexpectedCommand (hdr_command buf)), s1)
          else if hdr_size buf \<noteq> bytes then (Inl (SizeMismatch (hdr_size buf) bytes), s1)
          else (Inr (map (buf_at buf) [12 ..< 12 + unat bytes]), s1))"
  by pat_completeness auto
termination
  by (relation "measure (\<lambda>(bytes, ident, pendingLoops, buffer, s). Suc kMaxPendingLoops - pendingLoops)")
     auto

declare readMemory_loop.simps [simp del]

text \<open>\<^verbatim>\<open>UVCPReadMemoryCmd\<close>: header, \<^verbatim>\<open>address:u64\<close>, \<^verbatim>\<open>unknown:u16\<close>, \<^verbatim>\<open>size:u16\<close>.\<close>

definition UVCPReadMemoryCmd :: "u16 \<Rightarrow> u32 \<Rightarrow> u16 \<Rightarrow> u8 list" where
  "UVCPReadMemoryCmd ident address bytes =
     UVCPHeader MAGIC FLAGS_REQUEST_ACK COMMAND_READ_MEMORY_CMD (8 + 2 + 2) ident
       @ le64 (ucast address) @ le16 0 @ le16 bytes"

definition readMemory :: "u32 \<Rightarrow> u16 \<Rightarrow> sys \<Rightarrow> (u8 list) result" where
  "readMemory address bytes s =
     (if \<not> claimed s then (Inl NotClaimed, s)
      else if bytes = 0 then (Inr [], s)
      else
        (let (ident, s1) = nextRequestId s
         in case bulkSend (UVCPReadMemoryCmd ident address bytes) s1 of
              (Inl e, s2) \<Rightarrow> (Inl e, s2)
            | (Inr _, s2) \<Rightarrow> readMemory_loop bytes ident 0 [] s2))"

subsection \<open>writeMemory\<close>

function writeMemory_loop :: "u16 \<Rightarrow> u16 \<Rightarrow> nat \<Rightarrow> u8 list \<Rightarrow> sys \<Rightarrow> unit result" where
  "writeMemory_loop bytes ident pendingLoops buffer s =
     (case bulkReceive buffer s of
        (Inl e, s1) \<Rightarrow> (Inl e, s1)
      | (Inr buf, s1) \<Rightarrow>
          if hdr_magic buf \<noteq> MAGIC then (Inl BadMagic, s1)
          else if hdr_id buf \<noteq> ident then (Inl (IdMismatch (hdr_id buf) ident), s1)
          else if hdr_command buf = COMMAND_PENDING_ACK then
            (let waitMs = pending_timeout_ms buf
             in if kMaxPendingLoops < pendingLoops + 1 then (Inl TooManyPending, s1)
                else writeMemory_loop bytes ident (pendingLoops + 1) buf
                       (sleep_for (if waitMs \<noteq> 0 then unat waitMs else 1) s1))
          else if hdr_command buf \<noteq> COMMAND_WRITE_MEMORY_ACK
            then (Inl (UnexpectedCommand (hdr_command buf)), s1)
          else if ack_bytes_written buf \<noteq> bytes
            then (Inl (SizeMismatch (ack_bytes_written buf) bytes), s1)
          else (Inr (), s1))"
  by pat_completeness auto
termination
  by (relation "measure (\<lambda>(bytes, ident, pendingLoops, buffer, s). Suc kMaxPendingLoops - pendingLoops)")
     auto

declare writeMemory_loop.simps [simp del]

text \<open>\<^verbatim>\<open>UVCPWriteMemoryCmd\<close> up to its data: header and \<^verbatim>\<open>address:u64\<close>, twenty
  bytes, then \<open>bytes\<close> bytes copied from \<open>data\<close>.  \<^verbatim>\<open>header.size\<close> is a 16-bit field:
  \<open>8 + bytes\<close> wraps there.\<close>

definition UVCPWriteMemoryCmd :: "u16 \<Rightarrow> u32 \<Rightarrow> u8 list \<Rightarrow> u16 \<Rightarrow> u8 list" where
  "UVCPWriteMemoryCmd ident startAddress data bytes =
     UVCPHeader MAGIC FLAGS_REQUEST_ACK COMMAND_WRITE_MEMORY_CMD (8 + bytes) ident
       @ le64 (ucast startAddress) @ map (buf_at data) [0 ..< unat bytes]"

definition writeMemory :: "u32 \<Rightarrow> u8 list \<Rightarrow> u16 \<Rightarrow> sys \<Rightarrow> unit result" where
  "writeMemory startAddress data bytes s =
     (if \<not> claimed s then (Inl NotClaimed, s)
      else if bytes = 0 then (Inr (), s)
      else
        (let (ident, s1) = nextRequestId s
         in case bulkSend (UVCPWriteMemoryCmd ident startAddress data bytes) s1 of
              (Inl e, s2) \<Rightarrow> (Inl e, s2)
            | (Inr _, s2) \<Rightarrow> writeMemory_loop bytes ident 0 [] s2))"

subsection \<open>What a transaction uses up\<close>

text \<open>
  The loops below stop because every turn of theirs takes at least one transfer out
  of the script.  A transaction never puts one back, and one that succeeds on a
  non-empty range has taken at least one.
\<close>

lemma bulkReceive_script_le:
  "bulkReceive buffer s = (r, s1) \<Longrightarrow> length (bulk_in_script s1) \<le> length (bulk_in_script s)"
  by (auto simp: bulkReceive_def Let_def split: list.splits bulk_in.splits if_splits)

lemma bulkReceive_Inr:
  assumes "bulkReceive buffer s = (Inr buf, s1)"
  shows "\<exists>t d. bulk_in_script s = (t, InData d) # bulk_in_script s1 \<and> d \<noteq> [] \<and>
           length d \<le> TY_UVCP_MAX_MSG_LEN \<and> buf = d @ drop (length d) buffer \<and>
           s1 = s\<lparr>bulk_in_script := bulk_in_script s1, clock := clock s + t\<rparr>"
  using assms
  by (auto simp: bulkReceive_def Let_def split: list.splits bulk_in.splits if_splits)

lemma bulkReceive_Inr_script_less:
  "bulkReceive buffer s = (Inr buf, s1) \<Longrightarrow> length (bulk_in_script s1) < length (bulk_in_script s)"
  by (drule bulkReceive_Inr) auto

lemma sleep_for_script [simp]: "bulk_in_script (sleep_for ms s) = bulk_in_script s"
  by (simp add: sleep_for_def)

lemma readMemory_loop_script_le:
  "readMemory_loop bytes ident p buffer s = (r, s') \<Longrightarrow>
     length (bulk_in_script s') \<le> length (bulk_in_script s)"
proof (induction bytes ident p buffer s rule: readMemory_loop.induct)
  case (1 bytes ident p buffer s)
  obtain r1 s1 where rcv: "bulkReceive buffer s = (r1, s1)"
    by (cases "bulkReceive buffer s")
  note le1 = bulkReceive_script_le [OF rcv]
  show ?case
  proof (cases r1)
    case (Inl e)
    with "1.prems" rcv le1 show ?thesis
      by (subst (asm) readMemory_loop.simps) simp
  next
    case (Inr buf)
    show ?thesis
    proof (cases "hdr_magic buf = MAGIC \<and> hdr_id buf = ident \<and>
                  hdr_command buf = COMMAND_PENDING_ACK \<and> \<not> kMaxPendingLoops < p + 1")
      case True
      let ?s2 = "sleep_for (if pending_timeout_ms buf \<noteq> 0
                            then unat (pending_timeout_ms buf) else 1) s1"
      from "1.prems" rcv Inr True
      have rec: "readMemory_loop bytes ident (p + 1) buf ?s2 = (r, s')"
        by (subst (asm) readMemory_loop.simps) (simp add: Let_def)
      from True rcv Inr have "length (bulk_in_script s') \<le> length (bulk_in_script ?s2)"
        by (intro "1.IH" [OF _ refl _ _ _ refl _ rec]) simp_all
      with le1 show ?thesis by simp
    next
      case False
      with "1.prems" rcv Inr have "s' = s1"
        by (subst (asm) readMemory_loop.simps) (auto simp: Let_def split: if_splits)
      with le1 show ?thesis by simp
    qed
  qed
qed

lemma readMemory_loop_Inr_script_less:
  assumes "readMemory_loop bytes ident p buffer s = (Inr v, s')"
  shows "length (bulk_in_script s') < length (bulk_in_script s)"
proof -
  obtain r1 s1 where rcv: "bulkReceive buffer s = (r1, s1)"
    by (cases "bulkReceive buffer s")
  from assms rcv obtain buf where r1: "r1 = Inr buf"
    by (subst (asm) readMemory_loop.simps) (cases r1; simp)
  note less1 = bulkReceive_Inr_script_less [OF rcv [unfolded r1]]
  show ?thesis
  proof (cases "hdr_command buf = COMMAND_PENDING_ACK")
    case True
    let ?s2 = "sleep_for (if pending_timeout_ms buf \<noteq> 0
                          then unat (pending_timeout_ms buf) else 1) s1"
    from assms rcv r1 True
    have "readMemory_loop bytes ident (p + 1) buf ?s2 = (Inr v, s')"
      by (subst (asm) readMemory_loop.simps) (simp add: Let_def split: if_splits)
    from readMemory_loop_script_le [OF this] less1 show ?thesis by simp
  next
    case False
    with assms rcv r1 have "s' = s1"
      by (subst (asm) readMemory_loop.simps) (auto simp: Let_def split: if_splits)
    with less1 show ?thesis by simp
  qed
qed

lemma writeMemory_loop_script_le:
  "writeMemory_loop bytes ident p buffer s = (r, s') \<Longrightarrow>
     length (bulk_in_script s') \<le> length (bulk_in_script s)"
proof (induction bytes ident p buffer s rule: writeMemory_loop.induct)
  case (1 bytes ident p buffer s)
  obtain r1 s1 where rcv: "bulkReceive buffer s = (r1, s1)"
    by (cases "bulkReceive buffer s")
  note le1 = bulkReceive_script_le [OF rcv]
  show ?case
  proof (cases r1)
    case (Inl e)
    with "1.prems" rcv le1 show ?thesis
      by (subst (asm) writeMemory_loop.simps) simp
  next
    case (Inr buf)
    show ?thesis
    proof (cases "hdr_magic buf = MAGIC \<and> hdr_id buf = ident \<and>
                  hdr_command buf = COMMAND_PENDING_ACK \<and> \<not> kMaxPendingLoops < p + 1")
      case True
      let ?s2 = "sleep_for (if pending_timeout_ms buf \<noteq> 0
                            then unat (pending_timeout_ms buf) else 1) s1"
      from "1.prems" rcv Inr True
      have rec: "writeMemory_loop bytes ident (p + 1) buf ?s2 = (r, s')"
        by (subst (asm) writeMemory_loop.simps) (simp add: Let_def)
      from True rcv Inr have "length (bulk_in_script s') \<le> length (bulk_in_script ?s2)"
        by (intro "1.IH" [OF _ refl _ _ _ refl _ rec]) simp_all
      with le1 show ?thesis by simp
    next
      case False
      with "1.prems" rcv Inr have "s' = s1"
        by (subst (asm) writeMemory_loop.simps) (auto simp: Let_def split: if_splits)
      with le1 show ?thesis by simp
    qed
  qed
qed

lemma writeMemory_loop_Inr_script_less:
  assumes "writeMemory_loop bytes ident p buffer s = (Inr v, s')"
  shows "length (bulk_in_script s') < length (bulk_in_script s)"
proof -
  obtain r1 s1 where rcv: "bulkReceive buffer s = (r1, s1)"
    by (cases "bulkReceive buffer s")
  from assms rcv obtain buf where r1: "r1 = Inr buf"
    by (subst (asm) writeMemory_loop.simps) (cases r1; simp)
  note less1 = bulkReceive_Inr_script_less [OF rcv [unfolded r1]]
  show ?thesis
  proof (cases "hdr_command buf = COMMAND_PENDING_ACK")
    case True
    let ?s2 = "sleep_for (if pending_timeout_ms buf \<noteq> 0
                          then unat (pending_timeout_ms buf) else 1) s1"
    from assms rcv r1 True
    have "writeMemory_loop bytes ident (p + 1) buf ?s2 = (Inr v, s')"
      by (subst (asm) writeMemory_loop.simps) (simp add: Let_def split: if_splits)
    from writeMemory_loop_script_le [OF this] less1 show ?thesis by simp
  next
    case False
    with assms rcv r1 have "s' = s1"
      by (subst (asm) writeMemory_loop.simps) (auto simp: Let_def split: if_splits)
    with less1 show ?thesis by simp
  qed
qed

lemma bulkSend_script:
  "bulkSend data s = (r, s') \<Longrightarrow> bulk_in_script s' = bulk_in_script s"
  by (auto simp: bulkSend_def Let_def split: if_splits)

lemma nextRequestId_script:
  "nextRequestId s = (ident, s') \<Longrightarrow> bulk_in_script s' = bulk_in_script s"
  by (auto simp: nextRequestId_def)

lemma readMemory_script_le:
  assumes "readMemory address bytes s = (r, s')"
  shows "length (bulk_in_script s') \<le> length (bulk_in_script s)"
proof -
  obtain ident s1 where n: "nextRequestId s = (ident, s1)"
    by (cases "nextRequestId s")
  obtain r2 s2 where b: "bulkSend (UVCPReadMemoryCmd ident address bytes) s1 = (r2, s2)"
    by (cases "bulkSend (UVCPReadMemoryCmd ident address bytes) s1")
  have eq: "bulk_in_script s2 = bulk_in_script s"
    using nextRequestId_script [OF n] bulkSend_script [OF b] by simp
  show ?thesis
  proof (cases "\<not> claimed s \<or> bytes = 0 \<or> isl r2")
    case True
    with assms n b eq show ?thesis
      by (auto simp: readMemory_def isl_def split: if_splits)
  next
    case False
    with assms n b have "readMemory_loop bytes ident 0 [] s2 = (r, s')"
      by (cases r2) (auto simp: readMemory_def)
    from readMemory_loop_script_le [OF this] eq show ?thesis by simp
  qed
qed

lemma readMemory_Inr_script_less:
  assumes "readMemory address bytes s = (Inr v, s')" and "bytes \<noteq> 0"
  shows "length (bulk_in_script s') < length (bulk_in_script s)"
proof -
  obtain ident s1 where n: "nextRequestId s = (ident, s1)"
    by (cases "nextRequestId s")
  obtain r2 s2 where b: "bulkSend (UVCPReadMemoryCmd ident address bytes) s1 = (r2, s2)"
    by (cases "bulkSend (UVCPReadMemoryCmd ident address bytes) s1")
  have eq: "bulk_in_script s2 = bulk_in_script s"
    using nextRequestId_script [OF n] bulkSend_script [OF b] by simp
  from assms n b have "readMemory_loop bytes ident 0 [] s2 = (Inr v, s')"
    by (cases r2) (auto simp: readMemory_def split: if_splits)
  from readMemory_loop_Inr_script_less [OF this] eq show ?thesis by simp
qed

lemma writeMemory_script_le:
  assumes "writeMemory address data bytes s = (r, s')"
  shows "length (bulk_in_script s') \<le> length (bulk_in_script s)"
proof -
  obtain ident s1 where n: "nextRequestId s = (ident, s1)"
    by (cases "nextRequestId s")
  obtain r2 s2 where b: "bulkSend (UVCPWriteMemoryCmd ident address data bytes) s1 = (r2, s2)"
    by (cases "bulkSend (UVCPWriteMemoryCmd ident address data bytes) s1")
  have eq: "bulk_in_script s2 = bulk_in_script s"
    using nextRequestId_script [OF n] bulkSend_script [OF b] by simp
  show ?thesis
  proof (cases "\<not> claimed s \<or> bytes = 0 \<or> isl r2")
    case True
    with assms n b eq show ?thesis
      by (auto simp: writeMemory_def isl_def split: if_splits)
  next
    case False
    with assms n b have "writeMemory_loop bytes ident 0 [] s2 = (r, s')"
      by (cases r2) (auto simp: writeMemory_def)
    from writeMemory_loop_script_le [OF this] eq show ?thesis by simp
  qed
qed

lemma writeMemory_Inr_script_less:
  assumes "writeMemory address data bytes s = (Inr v, s')" and "bytes \<noteq> 0"
  shows "length (bulk_in_script s') < length (bulk_in_script s)"
proof -
  obtain ident s1 where n: "nextRequestId s = (ident, s1)"
    by (cases "nextRequestId s")
  obtain r2 s2 where b: "bulkSend (UVCPWriteMemoryCmd ident address data bytes) s1 = (r2, s2)"
    by (cases "bulkSend (UVCPWriteMemoryCmd ident address data bytes) s1")
  have eq: "bulk_in_script s2 = bulk_in_script s"
    using nextRequestId_script [OF n] bulkSend_script [OF b] by simp
  from assms n b have "writeMemory_loop bytes ident 0 [] s2 = (Inr v, s')"
    by (cases r2) (auto simp: writeMemory_def split: if_splits)
  from writeMemory_loop_Inr_script_less [OF this] eq show ?thesis by simp
qed

section \<open>Sequencing\<close>

text \<open>\<^verbatim>\<open>if (!f(...)) { return false; }\<close> followed by the rest of the function: the rest
  runs on the value and the state that \<open>f\<close> left, a failure of \<open>f\<close> is the result.\<close>

definition andThen :: "'a result \<Rightarrow> ('a \<Rightarrow> sys \<Rightarrow> 'b result) \<Rightarrow> 'b result" where
  "andThen r f = (case r of (Inl e, s) \<Rightarrow> (Inl e, s) | (Inr v, s) \<Rightarrow> f v s)"

lemma andThen_Inl [simp]: "andThen (Inl e, s) f = (Inl e, s)"
  by (simp add: andThen_def)

lemma andThen_Inr [simp]: "andThen (Inr v, s) f = f v s"
  by (simp add: andThen_def)

lemma andThen_cong [fundef_cong]:
  "r = r' \<Longrightarrow> (\<And>v s. r' = (Inr v, s) \<Longrightarrow> f v s = f' v s) \<Longrightarrow> andThen r f = andThen r' f'"
  by (auto simp: andThen_def split: prod.splits sum.splits)

lemma andThen_eq_Inr:
  "andThen r f = (Inr v, s') \<Longrightarrow> \<exists>u s1. r = (Inr u, s1) \<and> f u s1 = (Inr v, s')"
  by (auto simp: andThen_def split: prod.splits sum.splits)

lemma andThen_cases:
  assumes "andThen r f = (x, s')"
  obtains e where "r = (Inl e, s')" and "x = Inl e"
        | u s1 where "r = (Inr u, s1)" and "f u s1 = (x, s')"
  using assms by (auto simp: andThen_def split: prod.splits sum.splits)

section \<open>The terminal register map\<close>

definition kTerminalMagic :: u32 where "kTerminalMagic = 0x5445524D"
definition kTerminalBaseAddr :: u32 where "kTerminalBaseAddr = 0x30000"
definition kTerminalVersionAddr :: u32 where "kTerminalVersionAddr = kTerminalBaseAddr + 0x4"
definition kTerminalStatusAddr :: u32 where "kTerminalStatusAddr = kTerminalBaseAddr + 0x8"
definition kTerminalAvailAddr :: u32 where "kTerminalAvailAddr = kTerminalBaseAddr + 0xC"
definition kTerminalChunkHintAddr :: u32 where "kTerminalChunkHintAddr = kTerminalBaseAddr + 0x10"
definition kTerminalAuthStatusAddr :: u32 where "kTerminalAuthStatusAddr = kTerminalBaseAddr + 0x14"
definition kTerminalAuthCmdAddr :: u32 where "kTerminalAuthCmdAddr = kTerminalBaseAddr + 0x18"
definition kTerminalAuthBufAddr :: u32 where "kTerminalAuthBufAddr = kTerminalBaseAddr + 0x1C"
definition kTerminalDataAddr :: u32 where "kTerminalDataAddr = kTerminalBaseAddr + 0x100"

definition kTerminalFileCmdAddr :: u32 where "kTerminalFileCmdAddr = kTerminalBaseAddr + 0x40"
definition kTerminalFileStatusAddr :: u32 where "kTerminalFileStatusAddr = kTerminalBaseAddr + 0x44"
definition kTerminalFileResultAddr :: u32 where "kTerminalFileResultAddr = kTerminalBaseAddr + 0x48"
definition kTerminalFileSizeLowAddr :: u32 where "kTerminalFileSizeLowAddr = kTerminalBaseAddr + 0x4C"
definition kTerminalFileSizeHighAddr :: u32 where "kTerminalFileSizeHighAddr = kTerminalBaseAddr + 0x50"
definition kTerminalFileDataAvailAddr :: u32 where "kTerminalFileDataAvailAddr = kTerminalBaseAddr + 0x5C"
definition kTerminalFilePathAddr :: u32 where "kTerminalFilePathAddr = kTerminalBaseAddr + 0x60"
definition kTerminalFilePathCapacity :: nat where "kTerminalFilePathCapacity = 0x60"
definition kTerminalFileDataAddr :: u32 where "kTerminalFileDataAddr = kTerminalBaseAddr + 0xC0"
definition kTerminalFileDataWindow :: nat where "kTerminalFileDataWindow = 0x40"

definition kStatusReady :: u32 where "kStatusReady = push_bit 0 1"
definition kStatusOverflow :: u32 where "kStatusOverflow = push_bit 3 1"
definition kStatusError :: u32 where "kStatusError = push_bit 4 1"

definition kCtrlStart :: u32 where "kCtrlStart = push_bit 0 1"
definition kCtrlReset :: u32 where "kCtrlReset = push_bit 1 1"
definition kCtrlSigInt :: u32 where "kCtrlSigInt = push_bit 2 1"
definition kCtrlSigTerm :: u32 where "kCtrlSigTerm = push_bit 3 1"
definition kCtrlClearFlags :: u32 where "kCtrlClearFlags = push_bit 4 1"
definition kCtrlEchoEnable :: u32 where "kCtrlEchoEnable = push_bit 5 1"
definition kCtrlEchoDisable :: u32 where "kCtrlEchoDisable = push_bit 6 1"

definition kFileCmdOpenRead :: u32 where "kFileCmdOpenRead = 1"
definition kFileCmdOpenWrite :: u32 where "kFileCmdOpenWrite = 2"
definition kFileCmdClose :: u32 where "kFileCmdClose = 3"
definition kFileCmdReset :: u32 where "kFileCmdReset = 4"

definition kFileStatusError :: u32 where "kFileStatusError = push_bit 1 1"
definition kFileStatusEof :: u32 where "kFileStatusEof = push_bit 2 1"
definition kFileStatusReading :: u32 where "kFileStatusReading = push_bit 3 1"
definition kFileStatusWriting :: u32 where "kFileStatusWriting = push_bit 4 1"

section \<open>U3VDevice: registers\<close>

text \<open>\<^verbatim>\<open>readRegisters\<close>: \<open>registerCount * 4\<close> is cut to 16 bits as the cast does; the
  program calls it with one or two registers only.\<close>

definition readRegisters :: "u32 \<Rightarrow> u16 \<Rightarrow> sys \<Rightarrow> (u32 list) result" where
  "readRegisters address registerCount s =
     (if registerCount = 0 then (Inr [], s)
      else andThen (readMemory address (registerCount * 4) s)
             (\<lambda>raw s1. (Inr (map (\<lambda>i. rd32 raw (i * 4)) [0 ..< unat registerCount]), s1)))"

definition writeRegisters :: "u32 \<Rightarrow> u32 list \<Rightarrow> sys \<Rightarrow> unit result" where
  "writeRegisters startAddress vals s =
     (if vals = [] then (Inr (), s)
      else (let bytes = concat (map le32 vals)
            in writeMemory startAddress bytes (word_of_nat (length bytes)) s))"

definition writeRegister :: "u32 \<Rightarrow> u32 \<Rightarrow> sys \<Rightarrow> unit result" where
  "writeRegister address val s = writeRegisters address [val] s"

section \<open>TerminalClient: the session\<close>

definition readRegister :: "u32 \<Rightarrow> sys \<Rightarrow> u32 result" where
  "readRegister addr s =
     andThen (readRegisters addr 1 s) (\<lambda>vals s1. (Inr (vals ! 0), s1))"

definition readRegisterOr :: "u32 \<Rightarrow> u32 \<Rightarrow> sys \<Rightarrow> u32 \<times> sys" where
  "readRegisterOr addr fallback s =
     (case readRegister addr s of
        (Inr v, s1) \<Rightarrow> (v, s1)
      | (Inl e, s1) \<Rightarrow> (fallback, s1))"

text \<open>The bytes of a \<^verbatim>\<open>std::string\<close>.\<close>

definition bytes_of :: "string \<Rightarrow> u8 list" where
  "bytes_of str = map (\<lambda>c. word_of_nat (of_char c)) str"

definition initialize :: "sys \<Rightarrow> unit result" where
  "initialize s =
     (if initialized s then (Inr (), s)
      else andThen (readRegisters kTerminalBaseAddr 2 s) (\<lambda>regs s1.
        if regs ! 0 \<noteq> kTerminalMagic then (Inl (BadTerminalMagic (regs ! 0)), s1)
        else
          (let s2 = s1\<lparr>version := regs ! 1\<rparr>;
               s3 = (case readRegisters kTerminalVersionAddr 1 s2 of
                       (Inr regs', s') \<Rightarrow>
                         (let verReg = regs' ! 0
                          in if verReg \<noteq> 0 then s'\<lparr>version := verReg\<rparr> else s')
                     | (Inl e, s') \<Rightarrow> s');
               (hint, s4) = readRegisterOr kTerminalChunkHintAddr (chunkHint s3) s3;
               s5 = s4\<lparr>chunkHint := hint\<rparr>;
               s6 = (if chunkHint s5 = 0 then s5\<lparr>chunkHint := 512\<rparr> else s5)
           in (Inr (), s6\<lparr>initialized := True\<rparr>))))"

definition ensureAuth :: "sys \<Rightarrow> unit result" where
  "ensureAuth s =
     andThen (readRegister kTerminalAuthStatusAddr s) (\<lambda>authed s1.
       if authed \<noteq> 0 then (Inr (), s1)
       else
         (let pw = password s1
          in if pw = [] then (Inl AuthRequired, s1)
             else
               andThen (writeMemory kTerminalAuthBufAddr (bytes_of pw)
                          (word_of_nat (length pw)) s1) (\<lambda>_ s2.
               andThen (writeRegister kTerminalAuthCmdAddr 1 s2) (\<lambda>_ s3.
               andThen (readRegister kTerminalAuthStatusAddr s3) (\<lambda>authed' s4.
                 if authed' = 0 then (Inl AuthFailed, s4) else (Inr (), s4))))))"

lemma readRegister_script_le:
  "readRegister addr s = (r, s') \<Longrightarrow> length (bulk_in_script s') \<le> length (bulk_in_script s)"
  by (auto simp: readRegister_def readRegisters_def elim!: andThen_cases
           dest: readMemory_script_le)

lemma readRegister_Inr_script_less:
  "readRegister addr s = (Inr v, s') \<Longrightarrow> length (bulk_in_script s') < length (bulk_in_script s)"
  by (auto simp: readRegister_def readRegisters_def elim!: andThen_cases
           dest: readMemory_Inr_script_less)

text \<open>The poll of \<^verbatim>\<open>ensureSession\<close>: every 50 ms until \<open>deadline\<close>.\<close>

function ensureSession_poll :: "nat \<Rightarrow> sys \<Rightarrow> unit result" where
  "ensureSession_poll deadline s =
     (if clock s < deadline then
        andThen (readRegister kTerminalStatusAddr s) (\<lambda>status s1.
          if status AND kStatusReady \<noteq> 0 then (Inr (), s1)
          else ensureSession_poll deadline (sleep_for 50 s1))
      else (Inl SessionTimeout, s))"
  by pat_completeness auto
termination
  by (relation "measure (\<lambda>(deadline, s). length (bulk_in_script s))")
     (auto dest: readRegister_Inr_script_less)

declare ensureSession_poll.simps [simp del]

definition ensureSession :: "sys \<Rightarrow> unit result" where
  "ensureSession s =
     andThen (if \<not> initialized s then initialize s else (Inr (), s)) (\<lambda>_ s1.
     andThen (ensureAuth s1) (\<lambda>_ s2.
     andThen (readRegister kTerminalStatusAddr s2) (\<lambda>status s3.
       if status AND kStatusReady \<noteq> 0 then (Inr (), s3)
       else
         (let ctrl = kCtrlStart OR kCtrlClearFlags;
              ctrl = (if echoEnabled s3 then ctrl OR kCtrlEchoEnable
                      else ctrl OR kCtrlEchoDisable)
          in andThen (writeRegister kTerminalStatusAddr ctrl s3) (\<lambda>_ s4.
               ensureSession_poll (clock s4 + 2000) s4)))))"

definition reset :: "sys \<Rightarrow> unit result" where
  "reset s =
     andThen (initialize s) (\<lambda>_ s1.
       (let ctrl = kCtrlReset OR kCtrlClearFlags;
            ctrl = (if echoEnabled s1 then ctrl OR kCtrlEchoEnable
                    else ctrl OR kCtrlEchoDisable)
        in andThen (writeRegister kTerminalStatusAddr ctrl s1) (\<lambda>_ s2.
             ensureSession (sleep_for 200 s2))))"

definition setPassword :: "string \<Rightarrow> sys \<Rightarrow> sys" where
  "setPassword pass s = s\<lparr>password := pass\<rparr>"

definition setEchoEnabled :: "bool \<Rightarrow> sys \<Rightarrow> sys" where
  "setEchoEnabled enable s = s\<lparr>echoEnabled := enable\<rparr>"

definition lock :: "sys \<Rightarrow> unit result" where
  "lock s = writeRegister kTerminalAuthCmdAddr 0 s"

subsection \<open>Sending a command, draining the output\<close>

text \<open>
  The copy loop of \<^verbatim>\<open>sendCommand\<close>.  The length handed to \<^verbatim>\<open>writeMemory\<close> is
  \<^verbatim>\<open>static_cast<uint16_t>(chunk)\<close>, while \<open>offset\<close> advances by the whole \<open>chunk\<close>.  With
  \<open>chunkHint\<close> zero the C++ loop would make no progress and never come back.
\<close>

function sendCommand_loop :: "u8 list \<Rightarrow> nat \<Rightarrow> sys \<Rightarrow> unit result" where
  "sendCommand_loop payload offset s =
     (if offset < length payload then
        (let chunk = min (unat (chunkHint s)) (length payload - offset)
         in if chunk = 0 then (Inl NeverReturns, s)
            else andThen (writeMemory kTerminalDataAddr (drop offset payload)
                            (word_of_nat chunk) s)
                   (\<lambda>_ s1. sendCommand_loop payload (offset + chunk) s1))
      else (Inr (), s))"
  by pat_completeness auto
termination
  by (relation "measure (\<lambda>(payload, offset, s). length payload - offset)") auto

declare sendCommand_loop.simps [simp del]

definition sendCommand :: "string \<Rightarrow> sys \<Rightarrow> unit result" where
  "sendCommand command s =
     andThen (ensureSession s) (\<lambda>_ s1.
       (let payload = (if command = [] \<or> last command \<noteq> CHR 0x0A
                       then command @ [CHR 0x0A] else command)
        in sendCommand_loop (bytes_of payload) 0 s1))"

text \<open>
  The loop of \<^verbatim>\<open>drainOutput\<close>.  The output gathered so far stays in the caller's
  string when the function fails, so the model returns it beside the failure.  The
  status register is read for its diagnostics only (overflow, error bit), which the
  model does not print.
\<close>

function drainOutput_loop ::
  "nat \<Rightarrow> nat \<Rightarrow> nat \<Rightarrow> u8 list \<Rightarrow> sys \<Rightarrow> (err option \<times> u8 list) \<times> sys" where
  "drainOutput_loop idleTimeout deadline lastData out s =
     (if clock s < deadline then
        (case readRegister kTerminalStatusAddr s of
           (Inl e, s1) \<Rightarrow> ((Some e, out), s1)
         | (Inr status, s1) \<Rightarrow>
             (case readRegister kTerminalAvailAddr s1 of
                (Inl e, s2) \<Rightarrow> ((Some e, out), s2)
              | (Inr available, s2) \<Rightarrow>
                  if available = 0 then
                    (if lastData + idleTimeout < clock s2 then ((None, out), s2)
                     else drainOutput_loop idleTimeout deadline lastData out (sleep_for 50 s2))
                  else
                    (let toRead = min available (chunkHint s2)
                     in case readMemory kTerminalDataAddr (ucast toRead) s2 of
                          (Inl e, s3) \<Rightarrow> ((Some e, out), s3)
                        | (Inr buffer, s3) \<Rightarrow>
                            drainOutput_loop idleTimeout deadline (clock s3) (out @ buffer) s3)))
      else ((None, out), s))"
  by pat_completeness auto
termination
  by (relation "measure (\<lambda>(idleTimeout, deadline, lastData, out, s). length (bulk_in_script s))")
     (auto dest!: readRegister_Inr_script_less [OF sym] readMemory_script_le [OF sym])

declare drainOutput_loop.simps [simp del]

definition drainOutput :: "nat \<Rightarrow> nat \<Rightarrow> sys \<Rightarrow> (err option \<times> u8 list) \<times> sys" where
  "drainOutput idleTimeout maxWait s =
     (case ensureSession s of
        (Inl e, s1) \<Rightarrow> ((Some e, []), s1)
      | (Inr _, s1) \<Rightarrow> drainOutput_loop idleTimeout (clock s1 + maxWait) (clock s1) [] s1)"

definition print_out :: "u8 list \<Rightarrow> sys \<Rightarrow> sys" where
  "print_out out s = s\<lparr>stdout_log := stdout_log s @ out\<rparr>"

subsection \<open>File transfer\<close>

definition sendFileCommand :: "u32 \<Rightarrow> sys \<Rightarrow> unit result" where
  "sendFileCommand cmd s = writeRegister kTerminalFileCmdAddr cmd s"

definition readFileStatus :: "sys \<Rightarrow> u32 result" where
  "readFileStatus s = readRegister kTerminalFileStatusAddr s"

definition readFileResult :: "sys \<Rightarrow> u32 result" where
  "readFileResult s = readRegister kTerminalFileResultAddr s"

definition readFileDataAvail :: "sys \<Rightarrow> u32 result" where
  "readFileDataAvail s = readRegister kTerminalFileDataAvailAddr s"

definition readFileSize :: "sys \<Rightarrow> u64 result" where
  "readFileSize s =
     andThen (readRegister kTerminalFileSizeLowAddr s) (\<lambda>low s1.
     andThen (readRegister kTerminalFileSizeHighAddr s1) (\<lambda>high s2.
       (Inr (push_bit 32 (ucast high) OR ucast low), s2)))"

definition prepareFilePath :: "string \<Rightarrow> sys \<Rightarrow> unit result" where
  "prepareFilePath remotePath s =
     (if remotePath = [] then (Inl PathRequired, s)
      else andThen (sendFileCommand kFileCmdReset s) (\<lambda>_ s1.
        if kTerminalFilePathCapacity \<le> length remotePath then (Inl PathTooLong, s1)
        else
          (let buffer = bytes_of remotePath
                          @ replicate (kTerminalFilePathCapacity - length remotePath) 0
           in writeMemory kTerminalFilePathAddr buffer (word_of_nat (length buffer)) s1)))"

definition checkFileError :: "sys \<Rightarrow> unit result" where
  "checkFileError s =
     andThen (readFileStatus s) (\<lambda>status s1.
       if status AND kFileStatusError = 0 then (Inr (), s1)
       else andThen (readFileResult s1) (\<lambda>errno s2. (Inl (FileError errno), s2)))"

definition closeFileChannel :: "sys \<Rightarrow> unit result" where
  "closeFileChannel s =
     andThen (sendFileCommand kFileCmdClose s) (\<lambda>_ s1. checkFileError (sleep_for 5 s1))"

function waitForFileOpen_loop :: "u32 \<Rightarrow> nat \<Rightarrow> sys \<Rightarrow> unit result" where
  "waitForFileOpen_loop modeBit deadline s =
     (if clock s < deadline then
        andThen (readFileStatus s) (\<lambda>status s1.
          if status AND modeBit \<noteq> 0 then (Inr (), s1)
          else if status AND kFileStatusError \<noteq> 0 then checkFileError s1
          else waitForFileOpen_loop modeBit deadline (sleep_for 10 s1))
      else (Inl FileOpenTimeout, s))"
  by pat_completeness auto
termination
  by (relation "measure (\<lambda>(modeBit, deadline, s). length (bulk_in_script s))")
     (auto simp: readFileStatus_def dest: readRegister_Inr_script_less)

declare waitForFileOpen_loop.simps [simp del]

definition waitForFileOpen :: "u32 \<Rightarrow> nat \<Rightarrow> sys \<Rightarrow> unit result" where
  "waitForFileOpen modeBit timeout s = waitForFileOpen_loop modeBit (clock s + timeout) s"

text \<open>
  The \<^verbatim>\<open>while (success)\<close> of \<^verbatim>\<open>performFileDownload\<close>.  \<open>out\<close> is what has gone to the
  local file.  The read asks for \<^verbatim>\<open>static_cast<uint16_t>(avail)\<close> bytes and the file
  is given \<open>avail\<close> bytes of the buffer; where \<open>avail\<close> does not fit in 16 bits these
  differ and C++ reads past the vector, the model reads zeros there.
\<close>

function download_loop :: "string \<Rightarrow> u8 list \<Rightarrow> sys \<Rightarrow> (err option \<times> u8 list) \<times> sys" where
  "download_loop localPath out s =
     (case readFileDataAvail s of
        (Inl e, s1) \<Rightarrow> ((Some e, out), s1)
      | (Inr avail, s1) \<Rightarrow>
          if avail = 0 then
            (case readFileStatus s1 of
               (Inl e, s2) \<Rightarrow> ((Some e, out), s2)
             | (Inr status, s2) \<Rightarrow>
                 if status AND kFileStatusError \<noteq> 0 then
                   (case checkFileError s2 of
                      (Inl e, s3) \<Rightarrow> ((Some e, out), s3)
                    | (Inr _, s3) \<Rightarrow> ((None, out), s3))
                 else if status AND kFileStatusEof \<noteq> 0 then ((None, out), s2)
                 else download_loop localPath out (sleep_for 10 s2))
          else
            (case readMemory kTerminalFileDataAddr (ucast avail) s1 of
               (Inl e, s2) \<Rightarrow> ((Some e, out), s2)
             | (Inr buffer, s2) \<Rightarrow>
                 (let out' = out @ map (buf_at buffer) [0 ..< unat avail]
                  in if \<not> local_write_ok s2 localPath (length out')
                     then ((Some LocalWriteFailed, out'), s2)
                     else download_loop localPath out' s2)))"
  by pat_completeness auto
termination
  by (relation "measure (\<lambda>(localPath, out, s). length (bulk_in_script s))")
     (auto simp: readFileDataAvail_def readFileStatus_def
           dest!: readRegister_Inr_script_less [OF sym] readMemory_script_le [OF sym])

declare download_loop.simps [simp del]

text \<open>After the loop: \<^verbatim>\<open>if (!closeFileChannel()) success = false; return success;\<close>.
  The failure reported is the first one.\<close>

definition finishTransfer :: "err option \<Rightarrow> sys \<Rightarrow> unit result" where
  "finishTransfer failure s =
     (case closeFileChannel s of
        (Inl e, s1) \<Rightarrow> (Inl (case failure of Some e' \<Rightarrow> e' | None \<Rightarrow> e), s1)
      | (Inr _, s1) \<Rightarrow> (case failure of Some e' \<Rightarrow> (Inl e', s1) | None \<Rightarrow> (Inr (), s1)))"

definition performFileDownload :: "string \<Rightarrow> string \<Rightarrow> sys \<Rightarrow> unit result" where
  "performFileDownload remotePath localPath s =
     andThen (ensureSession s) (\<lambda>_ s1.
     andThen (prepareFilePath remotePath s1) (\<lambda>_ s2.
     andThen (sendFileCommand kFileCmdOpenRead s2) (\<lambda>_ s3.
       case waitForFileOpen kFileStatusReading 500 s3 of
         (Inl e, s4) \<Rightarrow> (Inl e, snd (closeFileChannel s4))
       | (Inr _, s4) \<Rightarrow>
           (let s5 = snd (readFileSize s4)
            in if \<not> local_writable s5 localPath
               then (Inl LocalOpenFailed, snd (closeFileChannel s5))
               else
                 (case download_loop localPath [] s5 of
                    ((failure, out), s6) \<Rightarrow>
                      finishTransfer failure
                        (s6\<lparr>local_written := (localPath, out) # local_written s6\<rparr>))))))"

text \<open>
  The \<^verbatim>\<open>while (ifs && success)\<close> of \<^verbatim>\<open>performFileUpload\<close> over what is left of the
  local file.  \<^verbatim>\<open>ifs.read\<close> fills at most the \<open>kTerminalFileDataWindow\<close> bytes of the
  buffer; a read that comes up short has met the end of the file and leaves the
  stream failed, which ends the loop after this slice.
\<close>

function upload_loop :: "u8 list \<Rightarrow> sys \<Rightarrow> unit result" where
  "upload_loop src s =
     (let got = min kTerminalFileDataWindow (length src)
      in if got = 0 then (Inr (), s)
         else
           andThen (writeMemory kTerminalFileDataAddr (take got src) (word_of_nat got) s)
             (\<lambda>_ s1.
           andThen (readFileStatus s1) (\<lambda>status s2.
             if status AND kFileStatusError \<noteq> 0 then checkFileError s2
             else if got < kTerminalFileDataWindow then (Inr (), s2)
             else upload_loop (drop got src) s2)))"
  by pat_completeness auto
termination
  by (relation "measure (\<lambda>(src, s). length src)")
     (auto simp: kTerminalFileDataWindow_def)

declare upload_loop.simps [simp del]

definition performFileUpload :: "string \<Rightarrow> string \<Rightarrow> sys \<Rightarrow> unit result" where
  "performFileUpload localPath remotePath s =
     (case local_files s localPath of
        None \<Rightarrow> (Inl LocalOpenFailed, s)
      | Some content \<Rightarrow>
          andThen (ensureSession s) (\<lambda>_ s1.
          andThen (prepareFilePath remotePath s1) (\<lambda>_ s2.
          andThen (sendFileCommand kFileCmdOpenWrite s2) (\<lambda>_ s3.
            case waitForFileOpen kFileStatusWriting 500 s3 of
              (Inl e, s4) \<Rightarrow> (Inl e, snd (closeFileChannel s4))
            | (Inr _, s4) \<Rightarrow>
                (case upload_loop content s4 of
                   (Inl e, s5) \<Rightarrow> finishTransfer (Some e) s5
                 | (Inr _, s5) \<Rightarrow> finishTransfer None s5)))))"

subsection \<open>Local commands\<close>

text \<open>\<^verbatim>\<open>isspace\<close> and \<^verbatim>\<open>isprint\<close> in the C locale.\<close>

definition isspace :: "char \<Rightarrow> bool" where
  "isspace c = (let n = (of_char c :: nat) in n = 32 \<or> (9 \<le> n \<and> n \<le> 13))"

definition isprint :: "char \<Rightarrow> bool" where
  "isprint c = (let n = (of_char c :: nat) in 32 \<le> n \<and> n \<le> 126)"

text \<open>\<^verbatim>\<open>while (iss >> token)\<close>: the maximal runs of characters that are not white
  space.  \<open>cur\<close> is the token being read.\<close>

fun split_ws :: "string \<Rightarrow> string \<Rightarrow> string list" where
  "split_ws cur [] = (if cur = [] then [] else [cur])"
| "split_ws cur (c # cs) =
     (if isspace c then (if cur = [] then split_ws [] cs else cur # split_ws [] cs)
      else split_ws (cur @ [c]) cs)"

definition splitTokens :: "string \<Rightarrow> string list" where
  "splitTokens line = split_ws [] line"

definition tryHandleFileTransferCommand :: "string \<Rightarrow> bool" where
  "tryHandleFileTransferCommand line =
     (let tokens = splitTokens line
      in if tokens = [] then False
         else (let op = tokens ! 0
               in if op \<noteq> ''u3vget'' \<and> op \<noteq> ''u3vput'' then False else True))"

text \<open>
  \<^verbatim>\<open>handleFileTransferCommand\<close> returns a success flag and sets \<open>handled\<close>.  It fails only
  after it has set \<open>handled\<close>, so the model's result is the failure, or the value of
  \<open>handled\<close> on success.
\<close>

definition handleFileTransferCommand :: "string \<Rightarrow> sys \<Rightarrow> bool result" where
  "handleFileTransferCommand line s =
     (let tokens = splitTokens line
      in if tokens = [] then (Inr False, s)
         else
           (let op = tokens ! 0
            in if op \<noteq> ''u3vget'' \<and> op \<noteq> ''u3vput'' then (Inr False, s)
               else if op = ''u3vget'' then
                 (if length tokens \<noteq> 3 then (Inr True, s)
                  else andThen (performFileDownload (tokens ! 1) (tokens ! 2) s)
                         (\<lambda>_ s1. (Inr True, s1)))
               else if length tokens \<noteq> 3 then (Inr True, s)
               else andThen (performFileUpload (tokens ! 1) (tokens ! 2) s)
                      (\<lambda>_ s1. (Inr True, s1))))"

subsection \<open>The one-shot runner\<close>

definition runOnce :: "string \<Rightarrow> sys \<Rightarrow> unit result" where
  "runOnce command s =
     andThen (handleFileTransferCommand command s) (\<lambda>handled s1.
       if handled then (Inr (), s1)
       else
         andThen (sendCommand command s1) (\<lambda>_ s2.
           case drainOutput 200 5000 s2 of
             ((Some e, out), s3) \<Rightarrow> (Inl e, s3)
           | ((None, out), s3) \<Rightarrow> (Inr (), print_out out s3)))"

subsection \<open>The line-buffered loop\<close>

text \<open>The \<^verbatim>\<open>while (true)\<close> of \<^verbatim>\<open>interactiveLoopV1\<close> over the lines \<^verbatim>\<open>getline\<close> will
  deliver; at their end \<^verbatim>\<open>getline\<close> fails and the loop is left.\<close>

fun interactiveLoopV1_lines :: "string list \<Rightarrow> sys \<Rightarrow> unit result" where
  "interactiveLoopV1_lines [] s = (Inr (), s)"
| "interactiveLoopV1_lines (line # rest) s =
     (if line = ''exit'' \<or> line = ''quit'' then (Inr (), s)
      else
        (case handleFileTransferCommand line s of
           (r, s1) \<Rightarrow>
             (let handled = (case r of Inl e \<Rightarrow> True | Inr h \<Rightarrow> h)
              in andThen (sendCommand (if handled then '' '' else line) s1) (\<lambda>_ s2.
                   case drainOutput 200 5000 s2 of
                     ((Some e, out), s3) \<Rightarrow> (Inl e, s3)
                   | ((None, out), s3) \<Rightarrow> interactiveLoopV1_lines rest (print_out out s3)))))"

definition interactiveLoopV1 :: "sys \<Rightarrow> unit result" where
  "interactiveLoopV1 s =
     andThen (ensureSession s) (\<lambda>_ s1.
       (case drainOutput 50 500 s1 of
          ((_, warmup), s2) \<Rightarrow>
            andThen (sendCommand ''cd /root'' (print_out warmup s2)) (\<lambda>_ s3.
              case drainOutput 200 5000 s3 of
                ((Some e, out), s4) \<Rightarrow> (Inl e, s4)
              | ((None, out), s4) \<Rightarrow>
                  interactiveLoopV1_lines (stdin_lines s4) (print_out out s4))))"

subsection \<open>The byte-wise loop\<close>

definition kExitKey :: char where
  "kExitKey = CHR 0x1D"

definition byte_of :: "char \<Rightarrow> u8" where
  "byte_of c = word_of_nat (of_char c)"

definition writeTerminalData :: "u8 list \<Rightarrow> sys \<Rightarrow> unit result" where
  "writeTerminalData toSend s =
     writeMemory kTerminalDataAddr toSend (word_of_nat (length toSend)) s"

text \<open>
  The \<^verbatim>\<open>for\<close> over the bytes of one \<^verbatim>\<open>read\<close>, with its locals \<open>exitRequested\<close>,
  \<open>toSend\<close> and \<open>currentLine\<close>.  The two writes inside the loop and the call of
  \<^verbatim>\<open>handleFileTransferCommand\<close> have their results thrown away, as in the source.
\<close>

fun interactive_bytes ::
  "string \<Rightarrow> bool \<Rightarrow> u8 list \<Rightarrow> string \<Rightarrow> sys \<Rightarrow> bool \<times> u8 list \<times> string \<times> sys" where
  "interactive_bytes [] exitRequested toSend currentLine s =
     (exitRequested, toSend, currentLine, s)"
| "interactive_bytes (ch # rest) exitRequested toSend currentLine s =
     (if ch = kExitKey then interactive_bytes rest True toSend currentLine s
      else if ch = CHR 0x0D \<or> ch = CHR 0x0A then
        (if currentLine = ''exit'' then
           (let toSend' = toSend @ [0x08, 0x08, 0x08, 0x08];
                s1 = snd (writeTerminalData toSend' s)
            in interactive_bytes rest True [] [] s1)
         else if tryHandleFileTransferCommand currentLine then
           (let toSend' = toSend @ replicate (length currentLine) 0x08 @ [0x0A];
                s1 = snd (writeTerminalData toSend' s);
                s2 = snd (handleFileTransferCommand currentLine s1)
            in interactive_bytes rest exitRequested [] [] s2)
         else interactive_bytes rest exitRequested (toSend @ [byte_of ch]) [] s)
      else if ch = CHR 0x7F \<or> ch = CHR 0x08 then
        interactive_bytes rest exitRequested (toSend @ [byte_of ch]) (butlast currentLine) s
      else if isprint ch then
        interactive_bytes rest exitRequested (toSend @ [byte_of ch]) (currentLine @ [ch]) s
      else interactive_bytes rest exitRequested (toSend @ [byte_of ch]) currentLine s)"

text \<open>
  Step 1 of a turn of the loop: look at standard input for at most 20 ms, work through
  the bytes read (at most the 256 of \<open>inBuf\<close>), send what is left in \<open>toSend\<close>.  The
  result is \<open>exitRequested\<close>, beside the line buffer.  When the script of polls is
  used up nothing more is typed.
\<close>

definition interactive_input :: "string \<Rightarrow> sys \<Rightarrow> ((err + bool) \<times> string) \<times> sys" where
  "interactive_input currentLine s =
     (let (poll, s0) = (case stdin_polls s of
                          [] \<Rightarrow> (NoInput, s)
                        | p # ps \<Rightarrow> (p, s\<lparr>stdin_polls := ps\<rparr>));
          (inBuf, s1) = (case poll of
                           NoInput \<Rightarrow> ([], s0\<lparr>clock := clock s0 + 20\<rparr>)
                         | Input ms str \<Rightarrow> (take 256 str, s0\<lparr>clock := clock s0 + ms\<rparr>))
      in if inBuf = [] then ((Inr False, currentLine), s1)
         else
           (case interactive_bytes inBuf False [] currentLine s1 of
              (exitRequested, toSend, currentLine', s2) \<Rightarrow>
                if toSend \<noteq> [] then
                  (case writeTerminalData toSend s2 of
                     (Inl e, s3) \<Rightarrow> ((Inl e, currentLine'), s3)
                   | (Inr _, s3) \<Rightarrow> ((Inr exitRequested, currentLine'), s3))
                else ((Inr exitRequested, currentLine'), s2)))"

text \<open>Step 2: when 10 ms have passed since the last poll, drain the device's output
  to standard output.  The result is the new \<open>lastPoll\<close>.\<close>

definition interactive_output :: "nat \<Rightarrow> sys \<Rightarrow> nat result" where
  "interactive_output lastPoll s =
     (let now = clock s
      in if lastPoll + 10 \<le> now then
           (case drainOutput 10 10 s of
              ((Some e, out), s1) \<Rightarrow> (Inl e, s1)
            | ((None, out), s1) \<Rightarrow> (Inr now, print_out out s1))
         else (Inr lastPoll, s))"

text \<open>The \<^verbatim>\<open>while (true)\<close> of \<^verbatim>\<open>interactiveLoopV2\<close>.  It ends on a request to exit or
  on a failure, and otherwise goes on for as long as the device answers.\<close>

partial_function (option) interactiveLoopV2_loop ::
  "nat \<Rightarrow> string \<Rightarrow> sys \<Rightarrow> (unit result) option" where
  "interactiveLoopV2_loop lastPoll currentLine s =
     (case interactive_input currentLine s of
        ((Inl e, currentLine'), s1) \<Rightarrow> Some (Inl e, s1)
      | ((Inr exitRequested, currentLine'), s1) \<Rightarrow>
          if exitRequested then Some (Inr (), s1)
          else
            (case interactive_output lastPoll s1 of
               (Inl e, s2) \<Rightarrow> Some (Inl e, s2)
             | (Inr lastPoll', s2) \<Rightarrow> interactiveLoopV2_loop lastPoll' currentLine' s2))"

definition setStdinRaw :: "sys \<Rightarrow> unit result" where
  "setStdinRaw s =
     (if stdin_raw_ok s then (Inr (), s\<lparr>stdin_raw := True\<rparr>) else (Inl StdinRawFailed, s))"

definition restoreStdin :: "sys \<Rightarrow> sys" where
  "restoreStdin s = s\<lparr>stdin_raw := False\<rparr>"

text \<open>\<^verbatim>\<open>interactiveLoopV2\<close>.  From \<^verbatim>\<open>setStdinRaw\<close> on, the guard restores the terminal
  on every way out.\<close>

definition interactiveLoopV2 :: "sys \<Rightarrow> (unit result) option" where
  "interactiveLoopV2 s =
     (case andThen (ensureSession s) (\<lambda>_ s1.
             (case drainOutput 50 500 s1 of
                ((_, warmup), s2) \<Rightarrow>
                  andThen (sendCommand ''cd /root'' (print_out warmup s2)) (\<lambda>_ s3.
                    case drainOutput 200 5000 s3 of
                      ((Some e, out), s4) \<Rightarrow> (Inl e, s4)
                    | ((None, out), s4) \<Rightarrow> setStdinRaw (print_out out s4)))) of
        (Inl e, s5) \<Rightarrow> Some (Inl e, s5)
      | (Inr _, s5) \<Rightarrow>
          map_option (\<lambda>(r, s6). (r, restoreStdin s6)) (interactiveLoopV2_loop (clock s5) [] s5))"

section \<open>main, from the claimed interface on\<close>

text \<open>What the argument loop of \<^verbatim>\<open>main\<close> leaves in its locals.\<close>

record options =
  interactive :: bool
  interactiveMode :: nat
  resetSession :: bool
  singleCommand :: string
  password_arg :: string

definition EXIT_SUCCESS :: nat where "EXIT_SUCCESS = 0"
definition EXIT_FAILURE :: nat where "EXIT_FAILURE = 1"

text \<open>\<^verbatim>\<open>U3VDevice::shutdown\<close>, which the destructor also runs on every \<^verbatim>\<open>return\<close> of
  \<^verbatim>\<open>main\<close>: the interface is released and the device closed.\<close>

definition shutdown :: "sys \<Rightarrow> sys" where
  "shutdown s = s\<lparr>claimed := False\<rparr>"

definition kMinV2Version :: u32 where
  "kMinV2Version = 0x00010002"

text \<open>
  \<^verbatim>\<open>main\<close> from \<^verbatim>\<open>TerminalClient terminal(device)\<close> to its end, on a device that has
  been opened and claimed.  The result is the exit code and the final state, or
  \<open>None\<close> when the byte-wise loop never ends.
\<close>

definition main :: "options \<Rightarrow> sys \<Rightarrow> (nat \<times> sys) option" where
  "main opts s =
     (case initialize s of
        (Inl e, s1) \<Rightarrow> Some (EXIT_FAILURE, shutdown s1)
      | (Inr _, s1) \<Rightarrow>
          (let s2 = (if password_arg opts \<noteq> [] then setPassword (password_arg opts) s1 else s1);
               mode = (if 2 \<le> interactiveMode opts \<and> version s2 < kMinV2Version
                       then 1 else interactiveMode opts);
               s3 = (if interactive opts then setEchoEnabled (mode = 2) s2
                     else setEchoEnabled False s2)
           in case (if resetSession opts then reset s3 else (Inr (), s3)) of
                (Inl e, s4) \<Rightarrow> Some (EXIT_FAILURE, shutdown s4)
              | (Inr _, s4) \<Rightarrow>
                  (case (if interactive opts then
                           (if mode = 1 then Some (interactiveLoopV1 s4)
                            else interactiveLoopV2 s4)
                         else Some (runOnce (singleCommand opts) s4)) of
                     None \<Rightarrow> None
                   | Some (ok, s5) \<Rightarrow>
                       (case lock s5 of
                          (Inl e, s6) \<Rightarrow> Some (EXIT_FAILURE, shutdown s6)
                        | (Inr _, s6) \<Rightarrow>
                            Some (if isl ok then EXIT_FAILURE else EXIT_SUCCESS,
                                  shutdown s6)))))"

section \<open>Device answers and a device to run against\<close>

text \<open>The acknowledgements as the device lays them out (\<^verbatim>\<open>UVCPPendingAck\<close>,
  \<^verbatim>\<open>UVCPReadMemoryAck\<close>, \<^verbatim>\<open>UVCPWriteMemoryAck\<close>), and the state of the process right
  after \<^verbatim>\<open>claimInterface\<close>, with the member initialisers of the two classes, in front
  of a device that will answer as \<open>script\<close> says.\<close>

definition UVCPPendingAck :: "u16 \<Rightarrow> u16 \<Rightarrow> u8 list" where
  "UVCPPendingAck ident timeout_ms =
     UVCPHeader MAGIC 0 COMMAND_PENDING_ACK 4 ident @ le16 0 @ le16 timeout_ms"

definition UVCPReadMemoryAck :: "u16 \<Rightarrow> u8 list \<Rightarrow> u8 list" where
  "UVCPReadMemoryAck ident data =
     UVCPHeader MAGIC 0 COMMAND_READ_MEMORY_ACK (word_of_nat (length data)) ident @ data"

definition UVCPWriteMemoryAck :: "u16 \<Rightarrow> u16 \<Rightarrow> u8 list" where
  "UVCPWriteMemoryAck ident bytes_written =
     UVCPHeader MAGIC 0 COMMAND_WRITE_MEMORY_ACK 4 ident @ le16 0 @ le16 bytes_written"

definition fresh :: "(nat \<times> bulk_in) list \<Rightarrow> sys" where
  "fresh script =
     \<lparr>claimed = True, requestId = 0, initialized = False, version = 0, chunkHint = 4096,
      password = [], echoEnabled = True, bulk_in_script = script, bulk_out_log = [],
      bulk_out_ok = (\<lambda>k. True), clock = 0, sleeps = [], stdin_lines = [], stdin_polls = [],
      stdin_raw_ok = True, stdin_raw = False, stdout_log = [], local_files = (\<lambda>p. None),
      local_writable = (\<lambda>p. True), local_write_ok = (\<lambda>p n. True), local_written = []\<rparr>"

lemmas wire_defs = UVCPPendingAck_def UVCPReadMemoryAck_def UVCPWriteMemoryAck_def UVCPHeader_def
  le16_def le32_def le64_def hdr_magic_def hdr_command_def hdr_size_def hdr_id_def
  pending_timeout_ms_def ack_bytes_written_def rd16_def rd32_def buf_at_def MAGIC_def
  COMMAND_PENDING_ACK_def COMMAND_READ_MEMORY_ACK_def COMMAND_WRITE_MEMORY_ACK_def
  COMMAND_READ_MEMORY_CMD_def COMMAND_WRITE_MEMORY_CMD_def FLAGS_REQUEST_ACK_def
  TY_UVCP_MAX_MSG_LEN_def

text \<open>The first two answers of a device to the probe, magic and version; and the
  definitions a run against a scripted device unfolds.\<close>

definition header_answers :: "(nat \<times> bulk_in) list" where
  "header_answers =
     [(0, InData (UVCPReadMemoryAck 1 (le32 kTerminalMagic @ le32 0x00010002))),
      (0, InData (UVCPReadMemoryAck 2 (le32 0x00010002)))]"

lemmas eval_defs = fresh_def wire_defs

lemmas run_defs = readMemory_def writeMemory_def nextRequestId_def bulkSend_def bulkReceive_def
  readMemory_loop.simps writeMemory_loop.simps sleep_for_def kMaxPendingLoops_def
  UVCPReadMemoryCmd_def UVCPWriteMemoryCmd_def readRegisters_def readRegister_def
  readRegisterOr_def writeRegisters_def writeRegister_def Let_def upt_rec

lemmas addr_defs = kTerminalMagic_def kTerminalBaseAddr_def kTerminalVersionAddr_def
  kTerminalStatusAddr_def kTerminalAvailAddr_def kTerminalChunkHintAddr_def
  kTerminalAuthStatusAddr_def kTerminalAuthCmdAddr_def kTerminalAuthBufAddr_def
  kTerminalDataAddr_def kTerminalFileCmdAddr_def kTerminalFileStatusAddr_def
  kTerminalFileResultAddr_def kTerminalFileSizeLowAddr_def kTerminalFileSizeHighAddr_def
  kTerminalFileDataAvailAddr_def kTerminalFilePathAddr_def kTerminalFileDataAddr_def

lemmas ctrl_defs = kStatusReady_def kStatusOverflow_def kStatusError_def kCtrlStart_def
  kCtrlReset_def kCtrlClearFlags_def kCtrlEchoEnable_def kCtrlEchoDisable_def

lemmas session_defs = reset_def ensureSession_def ensureAuth_def initialize_def
  ensureSession_poll.simps bytes_of_def setPassword_def  header_answers_def

lemmas file_defs = performFileUpload_def performFileDownload_def prepareFilePath_def
  sendFileCommand_def readFileStatus_def readFileResult_def readFileDataAvail_def
  readFileSize_def checkFileError_def closeFileChannel_def waitForFileOpen_def
  waitForFileOpen_loop.simps upload_loop.simps download_loop.simps finishTransfer_def
  kTerminalFilePathCapacity_def kTerminalFileDataWindow_def kFileCmdOpenRead_def
  kFileCmdOpenWrite_def kFileCmdClose_def kFileCmdReset_def kFileStatusError_def
  kFileStatusEof_def kFileStatusReading_def kFileStatusWriting_def

section \<open>The request/response engine\<close>

text \<open>A \<^verbatim>\<open>PENDING_ACK\<close> frame with matching magic and id, a \<^verbatim>\<open>READ_MEMORY_ACK\<close> and a
  \<^verbatim>\<open>WRITE_MEMORY_ACK\<close>: a transfer that reaches over the fields the host reads, so that
  nothing of an earlier transfer shows through.\<close>

definition pending_ack_for :: "u16 \<Rightarrow> u8 list \<Rightarrow> bool" where
  "pending_ack_for ident d =
     (16 \<le> length d \<and> length d \<le> TY_UVCP_MAX_MSG_LEN \<and> hdr_magic d = MAGIC \<and>
      hdr_id d = ident \<and> hdr_command d = COMMAND_PENDING_ACK)"

fun pending_transfer :: "u16 \<Rightarrow> nat \<times> bulk_in \<Rightarrow> bool" where
  "pending_transfer ident (t, InData d) = pending_ack_for ident d"
| "pending_transfer ident (t, InError) = False"

fun pending_sleep :: "nat \<times> bulk_in \<Rightarrow> nat" where
  "pending_sleep (t, InData d) = max (unat (pending_timeout_ms d)) 1"
| "pending_sleep (t, InError) = 0"

definition read_ack_for :: "u16 \<Rightarrow> u8 list \<Rightarrow> bool" where
  "read_ack_for ident d =
     (12 \<le> length d \<and> length d \<le> TY_UVCP_MAX_MSG_LEN \<and> hdr_magic d = MAGIC \<and>
      hdr_id d = ident \<and> hdr_command d = COMMAND_READ_MEMORY_ACK)"

definition write_ack_for :: "u16 \<Rightarrow> u8 list \<Rightarrow> bool" where
  "write_ack_for ident d =
     (16 \<le> length d \<and> length d \<le> TY_UVCP_MAX_MSG_LEN \<and> hdr_magic d = MAGIC \<and>
      hdr_id d = ident \<and> hdr_command d = COMMAND_WRITE_MEMORY_ACK)"

lemma buf_at_append1: "i < length d \<Longrightarrow> buf_at (d @ r) i = buf_at d i"
  by (simp add: buf_at_def nth_append)

lemma rd16_append1: "off + 1 < length d \<Longrightarrow> rd16 (d @ r) off = rd16 d off"
  by (simp add: rd16_def buf_at_append1)

lemma rd32_append1: "off + 3 < length d \<Longrightarrow> rd32 (d @ r) off = rd32 d off"
  by (simp add: rd32_def buf_at_append1)

lemma hdr_append1:
  assumes "12 \<le> length d"
  shows "hdr_magic (d @ r) = hdr_magic d" "hdr_command (d @ r) = hdr_command d"
    "hdr_size (d @ r) = hdr_size d" "hdr_id (d @ r) = hdr_id d"
  using assms
  by (simp_all add: hdr_magic_def hdr_command_def hdr_size_def hdr_id_def rd16_append1 rd32_append1)

lemma field14_append1:
  assumes "16 \<le> length d"
  shows "pending_timeout_ms (d @ r) = pending_timeout_ms d"
    "ack_bytes_written (d @ r) = ack_bytes_written d"
  using assms by (simp_all add: pending_timeout_ms_def ack_bytes_written_def rd16_append1)

lemma wait_ms: "(if (w :: u16) \<noteq> 0 then unat w else 1) = max (unat w) 1"
proof (cases "w = 0")
  case True
  then show ?thesis by simp
next
  case False
  then have "unat w \<noteq> 0" by (simp add: unat_eq_0)
  then have "1 \<le> unat w" by simp
  with False show ?thesis by (simp add: max_def)
qed

lemma bulkReceive_data:
  assumes "bulk_in_script s = (t, InData d) # rest" "d \<noteq> []" "length d \<le> TY_UVCP_MAX_MSG_LEN"
  shows "bulkReceive buffer s =
    (Inr (d @ drop (length d) buffer), s\<lparr>bulk_in_script := rest, clock := clock s + t\<rparr>)"
  using assms by (simp add: bulkReceive_def)

lemma readMemory_loop_pending:
  assumes "bulk_in_script s = (t, InData d) # rest" and "pending_ack_for ident d"
  shows "readMemory_loop bytes ident p buffer s =
     (if kMaxPendingLoops < p + 1
      then (Inl TooManyPending, s\<lparr>bulk_in_script := rest, clock := clock s + t\<rparr>)
      else readMemory_loop bytes ident (p + 1) (d @ drop (length d) buffer)
             (sleep_for (max (unat (pending_timeout_ms d)) 1)
                (s\<lparr>bulk_in_script := rest, clock := clock s + t\<rparr>)))"
proof -
  from assms(2) have len: "16 \<le> length d" "d \<noteq> []" "length d \<le> TY_UVCP_MAX_MSG_LEN"
    and f: "hdr_magic d = MAGIC" "hdr_id d = ident" "hdr_command d = COMMAND_PENDING_ACK"
    by (auto simp: pending_ack_for_def)
  note w = wait_ms [of "pending_timeout_ms d"]
  show ?thesis
    using len f
    by (subst readMemory_loop.simps)
       (simp add: bulkReceive_data [OF assms(1)] hdr_append1 field14_append1 Let_def w)
qed

lemma writeMemory_loop_pending:
  assumes "bulk_in_script s = (t, InData d) # rest" and "pending_ack_for ident d"
  shows "writeMemory_loop bytes ident p buffer s =
     (if kMaxPendingLoops < p + 1
      then (Inl TooManyPending, s\<lparr>bulk_in_script := rest, clock := clock s + t\<rparr>)
      else writeMemory_loop bytes ident (p + 1) (d @ drop (length d) buffer)
             (sleep_for (max (unat (pending_timeout_ms d)) 1)
                (s\<lparr>bulk_in_script := rest, clock := clock s + t\<rparr>)))"
proof -
  from assms(2) have len: "16 \<le> length d" "d \<noteq> []" "length d \<le> TY_UVCP_MAX_MSG_LEN"
    and f: "hdr_magic d = MAGIC" "hdr_id d = ident" "hdr_command d = COMMAND_PENDING_ACK"
    by (auto simp: pending_ack_for_def)
  note w = wait_ms [of "pending_timeout_ms d"]
  show ?thesis
    using len f
    by (subst writeMemory_loop.simps)
       (simp add: bulkReceive_data [OF assms(1)] hdr_append1 field14_append1 Let_def w)
qed

lemma readMemory_loop_ack:
  assumes "bulk_in_script s = (t, InData d) # rest" and "read_ack_for ident d"
  shows "readMemory_loop bytes ident p buffer s =
     (if hdr_size d \<noteq> bytes
      then (Inl (SizeMismatch (hdr_size d) bytes), s\<lparr>bulk_in_script := rest, clock := clock s + t\<rparr>)
      else (Inr (map (buf_at (d @ drop (length d) buffer)) [12 ..< 12 + unat bytes]),
            s\<lparr>bulk_in_script := rest, clock := clock s + t\<rparr>))"
proof -
  from assms(2) have len: "12 \<le> length d" "d \<noteq> []" "length d \<le> TY_UVCP_MAX_MSG_LEN"
    and f: "hdr_magic d = MAGIC" "hdr_id d = ident" "hdr_command d = COMMAND_READ_MEMORY_ACK"
    by (auto simp: read_ack_for_def)
  show ?thesis
    using len f
    by (subst readMemory_loop.simps)
       (simp add: bulkReceive_data [OF assms(1)] hdr_append1 Let_def
          COMMAND_READ_MEMORY_ACK_def COMMAND_PENDING_ACK_def)
qed

lemma writeMemory_loop_ack:
  assumes "bulk_in_script s = (t, InData d) # rest" and "write_ack_for ident d"
  shows "writeMemory_loop bytes ident p buffer s =
     (if ack_bytes_written d \<noteq> bytes
      then (Inl (SizeMismatch (ack_bytes_written d) bytes),
            s\<lparr>bulk_in_script := rest, clock := clock s + t\<rparr>)
      else (Inr (), s\<lparr>bulk_in_script := rest, clock := clock s + t\<rparr>))"
proof -
  from assms(2) have len: "16 \<le> length d" "d \<noteq> []" "length d \<le> TY_UVCP_MAX_MSG_LEN"
    and f: "hdr_magic d = MAGIC" "hdr_id d = ident" "hdr_command d = COMMAND_WRITE_MEMORY_ACK"
    by (auto simp: write_ack_for_def)
  show ?thesis
    using len f
    by (subst writeMemory_loop.simps)
       (simp add: bulkReceive_data [OF assms(1)] hdr_append1 field14_append1 Let_def
          COMMAND_WRITE_MEMORY_ACK_def COMMAND_PENDING_ACK_def)
qed

text \<open>Running through a run of pending acks.\<close>

lemma readMemory_loop_pendings:
  assumes "list_all (pending_transfer ident) pend" and "p + length pend \<le> kMaxPendingLoops"
    and "bulk_in_script s = pend @ rest"
  shows "\<exists>buffer' s'. readMemory_loop bytes ident p buffer s
           = readMemory_loop bytes ident (p + length pend) buffer' s' \<and>
         bulk_in_script s' = rest \<and> sleeps s' = sleeps s @ map pending_sleep pend"
  using assms
proof (induction pend arbitrary: p buffer s)
  case Nil
  then show ?case by auto
next
  case (Cons x pend)
  obtain t ev where x: "x = (t, ev)" by (cases x)
  with Cons.prems(1) obtain d where ev: "ev = InData d" and pd: "pending_ack_for ident d"
    by (cases ev) auto
  let ?s1 = "sleep_for (max (unat (pending_timeout_ms d)) 1)
               (s\<lparr>bulk_in_script := pend @ rest, clock := clock s + t\<rparr>)"
  have scr: "bulk_in_script s = (t, InData d) # pend @ rest"
    using Cons.prems(3) x ev by simp
  have step: "readMemory_loop bytes ident p buffer s
      = readMemory_loop bytes ident (p + 1) (d @ drop (length d) buffer) ?s1"
    using Cons.prems(2) by (simp add: readMemory_loop_pending [OF scr pd])
  have "\<exists>buffer' s'. readMemory_loop bytes ident (p + 1) (d @ drop (length d) buffer) ?s1
           = readMemory_loop bytes ident (p + 1 + length pend) buffer' s' \<and>
         bulk_in_script s' = rest \<and> sleeps s' = sleeps ?s1 @ map pending_sleep pend"
    using Cons.prems by (intro Cons.IH) (simp_all add: sleep_for_def)
  then show ?case
    using step x ev by (auto simp: sleep_for_def)
qed

lemma writeMemory_loop_pendings:
  assumes "list_all (pending_transfer ident) pend" and "p + length pend \<le> kMaxPendingLoops"
    and "bulk_in_script s = pend @ rest"
  shows "\<exists>buffer' s'. writeMemory_loop bytes ident p buffer s
           = writeMemory_loop bytes ident (p + length pend) buffer' s' \<and>
         bulk_in_script s' = rest \<and> sleeps s' = sleeps s @ map pending_sleep pend"
  using assms
proof (induction pend arbitrary: p buffer s)
  case Nil
  then show ?case by auto
next
  case (Cons x pend)
  obtain t ev where x: "x = (t, ev)" by (cases x)
  with Cons.prems(1) obtain d where ev: "ev = InData d" and pd: "pending_ack_for ident d"
    by (cases ev) auto
  let ?s1 = "sleep_for (max (unat (pending_timeout_ms d)) 1)
               (s\<lparr>bulk_in_script := pend @ rest, clock := clock s + t\<rparr>)"
  have scr: "bulk_in_script s = (t, InData d) # pend @ rest"
    using Cons.prems(3) x ev by simp
  have step: "writeMemory_loop bytes ident p buffer s
      = writeMemory_loop bytes ident (p + 1) (d @ drop (length d) buffer) ?s1"
    using Cons.prems(2) by (simp add: writeMemory_loop_pending [OF scr pd])
  have "\<exists>buffer' s'. writeMemory_loop bytes ident (p + 1) (d @ drop (length d) buffer) ?s1
           = writeMemory_loop bytes ident (p + 1 + length pend) buffer' s' \<and>
         bulk_in_script s' = rest \<and> sleeps s' = sleeps ?s1 @ map pending_sleep pend"
    using Cons.prems by (intro Cons.IH) (simp_all add: sleep_for_def)
  then show ?case
    using step x ev by (auto simp: sleep_for_def)
qed

fun overlay :: "u8 list \<Rightarrow> nat \<times> bulk_in \<Rightarrow> u8 list" where
  "overlay buffer (t, InData d) = d @ drop (length d) buffer"
| "overlay buffer (t, InError) = buffer"

definition receive_buffer :: "(nat \<times> bulk_in) list \<Rightarrow> u8 list" where
  "receive_buffer used = foldl overlay [] used"

lemma readMemory_started:
  assumes "claimed s" and "bytes \<noteq> 0" and "bulk_out_ok s (length (bulk_out_log s))"
  shows "readMemory address bytes s =
    readMemory_loop bytes (requestId s + 1) 0 []
      (s\<lparr>requestId := requestId s + 1,
         bulk_out_log := bulk_out_log s @ [UVCPReadMemoryCmd (requestId s + 1) address bytes]\<rparr>)"
  using assms by (simp add: readMemory_def nextRequestId_def bulkSend_def Let_def)

lemma writeMemory_started:
  assumes "claimed s" and "bytes \<noteq> 0" and "bulk_out_ok s (length (bulk_out_log s))"
  shows "writeMemory address data bytes s =
    writeMemory_loop bytes (requestId s + 1) 0 []
      (s\<lparr>requestId := requestId s + 1,
         bulk_out_log := bulk_out_log s @ [UVCPWriteMemoryCmd (requestId s + 1) address data bytes]\<rparr>)"
  using assms by (simp add: writeMemory_def nextRequestId_def bulkSend_def Let_def)

lemma readMemory_loop_Inr:
  "readMemory_loop bytes ident p buffer s = (Inr data, s') \<Longrightarrow>
     \<exists>used. bulk_in_script s = used @ bulk_in_script s' \<and> used \<noteq> [] \<and>
       hdr_magic (foldl overlay buffer used) = MAGIC \<and>
       hdr_id (foldl overlay buffer used) = ident \<and>
       hdr_command (foldl overlay buffer used) = COMMAND_READ_MEMORY_ACK \<and>
       hdr_size (foldl overlay buffer used) = bytes \<and>
       data = map (buf_at (foldl overlay buffer used)) [12 ..< 12 + unat bytes]"
proof (induction bytes ident p buffer s rule: readMemory_loop.induct)
  case (1 bytes ident p buffer s)
  from "1.prems" obtain buf s1 where rcv: "bulkReceive buffer s = (Inr buf, s1)"
    by (subst (asm) readMemory_loop.simps) (auto split: prod.splits sum.splits)
  from bulkReceive_Inr [OF rcv] obtain t d where
    scr: "bulk_in_script s = (t, InData d) # bulk_in_script s1" and
    buf: "buf = overlay buffer (t, InData d)"
    by auto
  show ?case
  proof (cases "hdr_command buf = COMMAND_PENDING_ACK")
    case True
    let ?s2 = "sleep_for (if pending_timeout_ms buf \<noteq> 0 then unat (pending_timeout_ms buf) else 1) s1"
    from "1.prems" rcv True have
      ok: "hdr_magic buf = MAGIC" "hdr_id buf = ident" "\<not> kMaxPendingLoops < p + 1" and
      rec: "readMemory_loop bytes ident (p + 1) buf ?s2 = (Inr data, s')"
      by (subst (asm) readMemory_loop.simps, simp add: Let_def split: if_splits)+
    from "1.IH" [OF rcv [symmetric] refl _ _ True refl _ rec] ok
    obtain used where u: "bulk_in_script ?s2 = used @ bulk_in_script s'" "used \<noteq> []"
       "hdr_magic (foldl overlay buf used) = MAGIC"
       "hdr_id (foldl overlay buf used) = ident"
       "hdr_command (foldl overlay buf used) = COMMAND_READ_MEMORY_ACK"
       "hdr_size (foldl overlay buf used) = bytes"
       "data = map (buf_at (foldl overlay buf used)) [12 ..< 12 + unat bytes]"
      by auto
    have "bulk_in_script s = ((t, InData d) # used) @ bulk_in_script s'"
      using scr u(1) by simp
    with u buf show ?thesis
      by (intro exI [of _ "(t, InData d) # used"]) simp
  next
    case False
    from "1.prems" rcv False have
      "hdr_magic buf = MAGIC" "hdr_id buf = ident" "hdr_command buf = COMMAND_READ_MEMORY_ACK"
      "hdr_size buf = bytes" "data = map (buf_at buf) [12 ..< 12 + unat bytes]" "s' = s1"
      by (subst (asm) readMemory_loop.simps, simp add: Let_def split: if_splits, blast?)+
    with scr buf show ?thesis
      by (intro exI [of _ "[(t, InData d)]"]) simp
  qed
qed

text \<open>
  \<^bold>\<open>C1.\<close>  In \<^verbatim>\<open>readMemory\<close> and in \<^verbatim>\<open>writeMemory\<close> alike, every \<^verbatim>\<open>PENDING_ACK\<close> with
  the right magic and id makes the host sleep \<open>max(timeout_ms, 1)\<close> milliseconds and
  receive again.  After up to five of them in a row the final acknowledgement still
  completes the transaction; the sixth ends it with \<open>TooManyPending\<close>, after the five
  sleeps.
\<close>

theorem pending_ack_limit:
  assumes "claimed s" and "bytes \<noteq> 0" and "bulk_out_ok s (length (bulk_out_log s))"
    and "list_all (pending_transfer (requestId s + 1)) pend"
  shows
    "(length pend \<le> 5 \<and> bulk_in_script s = pend @ (t, InData ack) # rest \<and>
      read_ack_for (requestId s + 1) ack \<and> hdr_size ack = bytes
        \<longrightarrow> (\<exists>got s'. readMemory address bytes s = (Inr got, s') \<and>
              sleeps s' = sleeps s @ map pending_sleep pend \<and> bulk_in_script s' = rest)) \<and>
     (length pend \<le> 5 \<and> bulk_in_script s = pend @ (t, InData ack) # rest \<and>
      write_ack_for (requestId s + 1) ack \<and> ack_bytes_written ack = bytes
        \<longrightarrow> (\<exists>s'. writeMemory address data bytes s = (Inr (), s') \<and>
              sleeps s' = sleeps s @ map pending_sleep pend \<and> bulk_in_script s' = rest)) \<and>
     (length pend = 6 \<and> bulk_in_script s = pend @ rest
        \<longrightarrow> (\<exists>s'. readMemory address bytes s = (Inl TooManyPending, s') \<and>
              sleeps s' = sleeps s @ map pending_sleep (take 5 pend)) \<and>
            (\<exists>s'. writeMemory address data bytes s = (Inl TooManyPending, s') \<and>
              sleeps s' = sleeps s @ map pending_sleep (take 5 pend)))"
proof (intro conjI impI)
  let ?id = "requestId s + 1"
  let ?sr = "s\<lparr>requestId := ?id,
                bulk_out_log := bulk_out_log s @ [UVCPReadMemoryCmd ?id address bytes]\<rparr>"
  let ?sw = "s\<lparr>requestId := ?id,
                bulk_out_log := bulk_out_log s @ [UVCPWriteMemoryCmd ?id address data bytes]\<rparr>"
  note rd = readMemory_started [OF assms(1-3), of address]
  note wr = writeMemory_started [OF assms(1-3), of address data]
  {
    assume a: "length pend \<le> 5 \<and> bulk_in_script s = pend @ (t, InData ack) # rest \<and>
      read_ack_for ?id ack \<and> hdr_size ack = bytes"
    then have "bulk_in_script ?sr = pend @ ((t, InData ack) # rest)" by simp
    from readMemory_loop_pendings [OF assms(4) _ this, of 0 bytes "[]"] a
    obtain buffer' s1 where
      1: "readMemory_loop bytes ?id 0 [] ?sr = readMemory_loop bytes ?id (length pend) buffer' s1"
      and 2: "bulk_in_script s1 = (t, InData ack) # rest"
      and 3: "sleeps s1 = sleeps s @ map pending_sleep pend"
      by (auto simp: kMaxPendingLoops_def)
    from a have "read_ack_for ?id ack" "hdr_size ack = bytes" by simp_all
    with readMemory_loop_ack [OF 2 this(1), of bytes "length pend" buffer'] 1 3 rd
    show "\<exists>got s'. readMemory address bytes s = (Inr got, s') \<and>
              sleeps s' = sleeps s @ map pending_sleep pend \<and> bulk_in_script s' = rest"
      by simp
  }
  {
    assume a: "length pend \<le> 5 \<and> bulk_in_script s = pend @ (t, InData ack) # rest \<and>
      write_ack_for ?id ack \<and> ack_bytes_written ack = bytes"
    then have "bulk_in_script ?sw = pend @ ((t, InData ack) # rest)" by simp
    from writeMemory_loop_pendings [OF assms(4) _ this, of 0 bytes "[]"] a
    obtain buffer' s1 where
      1: "writeMemory_loop bytes ?id 0 [] ?sw = writeMemory_loop bytes ?id (length pend) buffer' s1"
      and 2: "bulk_in_script s1 = (t, InData ack) # rest"
      and 3: "sleeps s1 = sleeps s @ map pending_sleep pend"
      by (auto simp: kMaxPendingLoops_def)
    from a have "write_ack_for ?id ack" "ack_bytes_written ack = bytes" by simp_all
    with writeMemory_loop_ack [OF 2 this(1), of bytes "length pend" buffer'] 1 3 wr
    show "\<exists>s'. writeMemory address data bytes s = (Inr (), s') \<and>
              sleeps s' = sleeps s @ map pending_sleep pend \<and> bulk_in_script s' = rest"
      by simp
  }
  {
    assume a: "length pend = 6 \<and> bulk_in_script s = pend @ rest"
    then have "length (drop 5 pend) = 1" by simp
    then obtain x where "drop 5 pend = [x]"
      by (cases "drop 5 pend") auto
    then have sp: "pend = take 5 pend @ [x]"
      by (metis append_take_drop_id)
    define pre where "pre = take 5 pend"
    from sp have pend: "pend = pre @ [x]" by (simp add: pre_def)
    with assms(4) have pre: "list_all (pending_transfer ?id) pre" and px: "pending_transfer ?id x"
      by simp_all
    from a pend have lpre: "length pre = 5" by simp
    obtain tx ev where x: "x = (tx, ev)" by (cases x)
    with px obtain d where ev: "ev = InData d" and pd: "pending_ack_for ?id d"
      by (cases ev) auto
    {
      from a pend x ev have "bulk_in_script ?sr = pre @ ((tx, InData d) # rest)" by simp
      from readMemory_loop_pendings [OF pre _ this, of 0 bytes "[]"] lpre
      obtain buffer' s1 where
        1: "readMemory_loop bytes ?id 0 [] ?sr = readMemory_loop bytes ?id 5 buffer' s1"
        and 2: "bulk_in_script s1 = (tx, InData d) # rest"
        and 3: "sleeps s1 = sleeps s @ map pending_sleep pre"
        by (auto simp: kMaxPendingLoops_def)
      from readMemory_loop_pending [OF 2 pd, of bytes 5 buffer'] 1 3 rd
      show "\<exists>s'. readMemory address bytes s = (Inl TooManyPending, s') \<and>
              sleeps s' = sleeps s @ map pending_sleep (take 5 pend)"
        by (simp add: kMaxPendingLoops_def pre_def)
    }
    {
      from a pend x ev have "bulk_in_script ?sw = pre @ ((tx, InData d) # rest)" by simp
      from writeMemory_loop_pendings [OF pre _ this, of 0 bytes "[]"] lpre
      obtain buffer' s1 where
        1: "writeMemory_loop bytes ?id 0 [] ?sw = writeMemory_loop bytes ?id 5 buffer' s1"
        and 2: "bulk_in_script s1 = (tx, InData d) # rest"
        and 3: "sleeps s1 = sleeps s @ map pending_sleep pre"
        by (auto simp: kMaxPendingLoops_def)
      from writeMemory_loop_pending [OF 2 pd, of bytes 5 buffer'] 1 3 wr
      show "\<exists>s'. writeMemory address data bytes s = (Inl TooManyPending, s') \<and>
              sleeps s' = sleeps s @ map pending_sleep (take 5 pend)"
        by (simp add: kMaxPendingLoops_def pre_def)
    }
  }
qed

definition five_pending :: "(nat \<times> bulk_in) list" where
  "five_pending = map (\<lambda>ms. (0, InData (UVCPPendingAck 1 ms))) [7, 0, 0, 0, 0]"

theorem pending_ack_limit_witness:
  "(\<exists>got s'. readMemory kTerminalBaseAddr 4
       (fresh (five_pending @ [(0, InData (UVCPReadMemoryAck 1 [1, 2, 3, 4]))])) = (Inr got, s') \<and>
      sleeps s' = [7, 1, 1, 1, 1] \<and> bulk_in_script s' = []) \<and>
   (\<exists>s'. writeMemory kTerminalDataAddr [9, 9] 2
       (fresh (five_pending @ [(0, InData (UVCPWriteMemoryAck 1 2))])) = (Inr (), s') \<and>
      sleeps s' = [7, 1, 1, 1, 1] \<and> bulk_in_script s' = []) \<and>
   (\<exists>s'. readMemory kTerminalBaseAddr 4
       (fresh (five_pending @ [(0, InData (UVCPPendingAck 1 3))])) = (Inl TooManyPending, s') \<and>
      sleeps s' = [7, 1, 1, 1, 1]) \<and>
   (\<exists>s'. writeMemory kTerminalDataAddr [9, 9] 2
       (fresh (five_pending @ [(0, InData (UVCPPendingAck 1 3))])) = (Inl TooManyPending, s') \<and>
      sleeps s' = [7, 1, 1, 1, 1])"
proof -
  let ?rack = "UVCPReadMemoryAck 1 [1, 2, 3, 4]"
  let ?wack = "UVCPWriteMemoryAck 1 2"
  let ?p6 = "UVCPPendingAck 1 3"
  have p5: "list_all (pending_transfer 1) five_pending"
    by (simp add: five_pending_def pending_ack_for_def read_ack_for_def
          write_ack_for_def eval_defs)
  have p6: "list_all (pending_transfer 1) (five_pending @ [(0, InData ?p6)])"
    by (simp add: five_pending_def pending_ack_for_def read_ack_for_def
          write_ack_for_def eval_defs)
  have sl: "map pending_sleep five_pending = [7, 1, 1, 1, 1]"
    by (simp add: five_pending_def pending_ack_for_def read_ack_for_def
          write_ack_for_def eval_defs)
  have r: "read_ack_for 1 ?rack \<and> hdr_size ?rack = 4"
    by (simp add: five_pending_def pending_ack_for_def read_ack_for_def
          write_ack_for_def eval_defs)
  have w: "write_ack_for 1 ?wack \<and> ack_bytes_written ?wack = 2"
    by (simp add: five_pending_def pending_ack_for_def read_ack_for_def
          write_ack_for_def eval_defs)
  have len: "length five_pending = 5" by (simp add: five_pending_def)
  from pending_ack_limit [of "fresh (five_pending @ [(0, InData ?rack)])" 4 five_pending
      0 ?rack "[]" kTerminalBaseAddr] p5 r sl len
  have 1: "\<exists>got s'. readMemory kTerminalBaseAddr 4
       (fresh (five_pending @ [(0, InData ?rack)])) = (Inr got, s') \<and>
      sleeps s' = [7, 1, 1, 1, 1] \<and> bulk_in_script s' = []"
    by (simp add: fresh_def)
  from pending_ack_limit [of "fresh (five_pending @ [(0, InData ?wack)])" 2 five_pending
      0 ?wack "[]" kTerminalDataAddr "[9, 9]"] p5 w sl len
  have 2: "\<exists>s'. writeMemory kTerminalDataAddr [9, 9] 2
       (fresh (five_pending @ [(0, InData ?wack)])) = (Inr (), s') \<and>
      sleeps s' = [7, 1, 1, 1, 1] \<and> bulk_in_script s' = []"
    by (simp add: fresh_def)
  from pending_ack_limit [of "fresh (five_pending @ [(0, InData ?p6)])" 4
      "five_pending @ [(0, InData ?p6)]" _ _ "[]" kTerminalBaseAddr] p6 sl len
  have 3: "\<exists>s'. readMemory kTerminalBaseAddr 4
       (fresh (five_pending @ [(0, InData ?p6)])) = (Inl TooManyPending, s') \<and>
      sleeps s' = [7, 1, 1, 1, 1]"
    by (simp add: fresh_def)
  from pending_ack_limit [of "fresh (five_pending @ [(0, InData ?p6)])" 2
      "five_pending @ [(0, InData ?p6)]" _ _ "[]" _ "[9, 9]"] p6 sl len
  have 4: "\<exists>s'. writeMemory kTerminalDataAddr [9, 9] 2
       (fresh (five_pending @ [(0, InData ?p6)])) = (Inl TooManyPending, s') \<and>
      sleeps s' = [7, 1, 1, 1, 1]"
    by (simp add: fresh_def)
  from 1 2 3 4 show ?thesis by blast
qed

text \<open>
  \<^bold>\<open>C2.\<close>  A \<^verbatim>\<open>readMemory\<close> of \<open>bytes\<close> bytes that succeeds delivers exactly \<open>bytes\<close>
  bytes, and for \<open>bytes > 0\<close> the receive buffer then holds a \<^verbatim>\<open>READ_MEMORY_ACK\<close> whose
  size field is \<open>bytes\<close>, with the delivered bytes behind its header.  An
  acknowledgement with another size field ends the read with \<open>SizeMismatch\<close>.
\<close>

theorem read_size_contract:
  "(fst (readMemory address bytes s) = Inr got \<longrightarrow>
      length got = unat bytes \<and>
      (bytes \<noteq> 0 \<longrightarrow>
        (\<exists>used. bulk_in_script s = used @ bulk_in_script (snd (readMemory address bytes s)) \<and>
           used \<noteq> [] \<and>
           hdr_command (receive_buffer used) = COMMAND_READ_MEMORY_ACK \<and>
           hdr_size (receive_buffer used) = bytes \<and>
           got = map (buf_at (receive_buffer used)) [12 ..< 12 + unat bytes]))) \<and>
   (claimed s \<and> bytes \<noteq> 0 \<and> bulk_out_ok s (length (bulk_out_log s)) \<and>
    list_all (pending_transfer (requestId s + 1)) pend \<and> length pend \<le> 5 \<and>
    bulk_in_script s = pend @ (t, InData ack) # rest \<and>
    read_ack_for (requestId s + 1) ack \<and> hdr_size ack \<noteq> bytes \<longrightarrow>
      fst (readMemory address bytes s) = Inl (SizeMismatch (hdr_size ack) bytes))"
proof (intro conjI impI)
  assume ok: "fst (readMemory address bytes s) = Inr got"
  obtain s' where r: "readMemory address bytes s = (Inr got, s')"
    using ok by (cases "readMemory address bytes s") auto
  show "length got = unat bytes"
  proof (cases "bytes = 0")
    case True
    with r show ?thesis by (auto simp: readMemory_def split: if_splits)
  next
    case False
    with r obtain ident s2 where "readMemory_loop bytes ident 0 [] s2 = (Inr got, s')"
      by (auto simp: readMemory_def Let_def split: if_splits prod.splits sum.splits)
    from readMemory_loop_Inr [OF this] show ?thesis by auto
  qed
  assume nz: "bytes \<noteq> 0"
  obtain ident s1 where n: "nextRequestId s = (ident, s1)"
    by (cases "nextRequestId s")
  obtain r2 s2 where b: "bulkSend (UVCPReadMemoryCmd ident address bytes) s1 = (r2, s2)"
    by (cases "bulkSend (UVCPReadMemoryCmd ident address bytes) s1")
  have eq: "bulk_in_script s2 = bulk_in_script s"
    using nextRequestId_script [OF n] bulkSend_script [OF b] by simp
  from r nz n b have "readMemory_loop bytes ident 0 [] s2 = (Inr got, s')"
    by (cases r2) (auto simp: readMemory_def split: if_splits)
  from readMemory_loop_Inr [OF this] eq r
  show "\<exists>used. bulk_in_script s = used @ bulk_in_script (snd (readMemory address bytes s)) \<and>
           used \<noteq> [] \<and>
           hdr_command (receive_buffer used) = COMMAND_READ_MEMORY_ACK \<and>
           hdr_size (receive_buffer used) = bytes \<and>
           got = map (buf_at (receive_buffer used)) [12 ..< 12 + unat bytes]"
    by (auto simp: receive_buffer_def)
next
  let ?id = "requestId s + 1"
  let ?sr = "s\<lparr>requestId := ?id,
                bulk_out_log := bulk_out_log s @ [UVCPReadMemoryCmd ?id address bytes]\<rparr>"
  assume a: "claimed s \<and> bytes \<noteq> 0 \<and> bulk_out_ok s (length (bulk_out_log s)) \<and>
    list_all (pending_transfer ?id) pend \<and> length pend \<le> 5 \<and>
    bulk_in_script s = pend @ (t, InData ack) # rest \<and>
    read_ack_for ?id ack \<and> hdr_size ack \<noteq> bytes"
  then have rd: "readMemory address bytes s = readMemory_loop bytes ?id 0 [] ?sr"
    by (intro readMemory_started) simp_all
  from a have "bulk_in_script ?sr = pend @ ((t, InData ack) # rest)"
    and p: "list_all (pending_transfer ?id) pend" by simp_all
  from readMemory_loop_pendings [OF p _ this(1), of 0 bytes "[]"] a
  obtain buffer' s1 where
    1: "readMemory_loop bytes ?id 0 [] ?sr = readMemory_loop bytes ?id (length pend) buffer' s1"
    and 2: "bulk_in_script s1 = (t, InData ack) # rest"
    by (auto simp: kMaxPendingLoops_def)
  from a have "read_ack_for ?id ack" "hdr_size ack \<noteq> bytes" by simp_all
  with readMemory_loop_ack [OF 2 this(1), of bytes "length pend" buffer'] 1 rd
  show "fst (readMemory address bytes s) = Inl (SizeMismatch (hdr_size ack) bytes)"
    by simp
qed

theorem read_size_contract_witness:
  "fst (readMemory kTerminalBaseAddr 4 (fresh [(0, InData (UVCPReadMemoryAck 1 [1, 2, 3, 4]))]))
     = Inr [1, 2, 3, 4] \<and>
   length [1, 2, 3, 4 :: u8] = unat (4 :: u16) \<and>
   hdr_size (UVCPReadMemoryAck 1 [1, 2]) \<noteq> 4 \<and>
   fst (readMemory kTerminalBaseAddr 4 (fresh [(0, InData (UVCPReadMemoryAck 1 [1, 2]))]))
     = Inl (SizeMismatch 2 4)"
proof -
  let ?good = "fresh [(0, InData (UVCPReadMemoryAck 1 [1, 2, 3, 4]))]"
  let ?bad = "fresh [(0, InData (UVCPReadMemoryAck 1 [1, 2]))]"
  have 1: "fst (readMemory kTerminalBaseAddr 4 ?good) = Inr [1, 2, 3, 4]"
    by (simp add: readMemory_def nextRequestId_def bulkSend_def Let_def readMemory_loop.simps
          bulkReceive_def eval_defs upt_rec)
  have 2: "read_ack_for 1 (UVCPReadMemoryAck 1 [1, 2]) \<and> hdr_size (UVCPReadMemoryAck 1 [1, 2]) = 2"
    by (simp add: read_ack_for_def eval_defs)
  from read_size_contract [of kTerminalBaseAddr 4 ?good "[1, 2, 3, 4]"] 1
  have 3: "length [1, 2, 3, 4 :: u8] = unat (4 :: u16)" by blast
  from read_size_contract [of kTerminalBaseAddr 4 ?bad _ "[]" 0 "UVCPReadMemoryAck 1 [1, 2]" "[]"] 2
  have 4: "fst (readMemory kTerminalBaseAddr 4 ?bad) = Inl (SizeMismatch 2 4)"
    by (simp add: fresh_def)
  from 1 2 3 4 show ?thesis by simp
qed

section \<open>What a transaction leaves alone\<close>

text \<open>A transaction touches the request counter, the two ends of the bulk channel
  and the clock, and nothing else of the state.\<close>

definition transport_only :: "sys \<Rightarrow> sys \<Rightarrow> bool" where
  "transport_only s s' =
     (\<exists>i scr l c sl. s' = s\<lparr>requestId := i, bulk_in_script := scr, bulk_out_log := l,
                              clock := c, sleeps := sl\<rparr>)"

lemma transport_only_refl [simp]: "transport_only s s"
  unfolding transport_only_def
  by (rule exI [of _ "requestId s"], rule exI [of _ "bulk_in_script s"],
      rule exI [of _ "bulk_out_log s"], rule exI [of _ "clock s"], rule exI [of _ "sleeps s"])
     simp

lemma transport_only_trans:
  "transport_only s s1 \<Longrightarrow> transport_only s1 s2 \<Longrightarrow> transport_only s s2"
  unfolding transport_only_def by (elim exE) (simp, blast)

lemma transport_only_fields:
  assumes "transport_only s s'"
  shows "claimed s' = claimed s" "initialized s' = initialized s" "version s' = version s"
    "chunkHint s' = chunkHint s" "password s' = password s" "echoEnabled s' = echoEnabled s"
    "bulk_out_ok s' = bulk_out_ok s" "stdin_polls s' = stdin_polls s"
    "local_files s' = local_files s"
  using assms by (auto simp: transport_only_def)

lemma transport_only_sleep_for [simp]: "transport_only s (sleep_for ms s)"
  unfolding transport_only_def sleep_for_def
  by (rule exI [of _ "requestId s"], rule exI [of _ "bulk_in_script s"],
      rule exI [of _ "bulk_out_log s"]) auto

text \<open>The receive loops do less: they take from the script and let time pass.\<close>

definition receive_only :: "sys \<Rightarrow> sys \<Rightarrow> bool" where
  "receive_only s s' = (\<exists>scr c sl. s' = s\<lparr>bulk_in_script := scr, clock := c, sleeps := sl\<rparr>)"

lemma receive_only_refl [simp]: "receive_only s s"
  unfolding receive_only_def
  by (rule exI [of _ "bulk_in_script s"], rule exI [of _ "clock s"], rule exI [of _ "sleeps s"])
     simp

lemma receive_only_trans:
  "receive_only s s1 \<Longrightarrow> receive_only s1 s2 \<Longrightarrow> receive_only s s2"
  unfolding receive_only_def by (elim exE) (simp, blast)

lemma receive_only_sleep_for [simp]: "receive_only s (sleep_for ms s)"
  unfolding receive_only_def sleep_for_def
  by (rule exI [of _ "bulk_in_script s"]) auto

lemma receive_only_transport_only: "receive_only s s' \<Longrightarrow> transport_only s s'"
  unfolding receive_only_def transport_only_def
  by (elim exE, rule_tac x = "requestId s" in exI, rule_tac x = scr in exI,
      rule_tac x = "bulk_out_log s" in exI, rule_tac x = c in exI, rule_tac x = sl in exI)
     simp

lemma receive_only_fields:
  assumes "receive_only s s'"
  shows "bulk_out_log s' = bulk_out_log s" "requestId s' = requestId s"
  using assms by (auto simp: receive_only_def)

lemma bulkReceive_receive_only: "bulkReceive buffer s = (r, s1) \<Longrightarrow> receive_only s s1"
  unfolding receive_only_def bulkReceive_def
  by (rule exI [of _ "bulk_in_script s1"], rule exI [of _ "clock s1"], rule exI [of _ "sleeps s"])
     (auto simp: Let_def split: list.splits bulk_in.splits if_splits)

lemma readMemory_loop_receive_only:
  "readMemory_loop bytes ident p buffer s = (r, s') \<Longrightarrow> receive_only s s'"
proof (induction bytes ident p buffer s rule: readMemory_loop.induct)
  case (1 bytes ident p buffer s)
  obtain r1 s1 where rcv: "bulkReceive buffer s = (r1, s1)"
    by (cases "bulkReceive buffer s")
  note t1 = bulkReceive_receive_only [OF rcv]
  show ?case
  proof (cases r1)
    case (Inl e)
    with "1.prems" rcv t1 show ?thesis
      by (subst (asm) readMemory_loop.simps) simp
  next
    case (Inr buf)
    show ?thesis
    proof (cases "hdr_magic buf = MAGIC \<and> hdr_id buf = ident \<and>
                  hdr_command buf = COMMAND_PENDING_ACK \<and> \<not> kMaxPendingLoops < p + 1")
      case True
      let ?s2 = "sleep_for (if pending_timeout_ms buf \<noteq> 0
                            then unat (pending_timeout_ms buf) else 1) s1"
      from "1.prems" rcv Inr True
      have rec: "readMemory_loop bytes ident (p + 1) buf ?s2 = (r, s')"
        by (subst (asm) readMemory_loop.simps) (simp add: Let_def)
      from True rcv Inr have "receive_only ?s2 s'"
        by (intro "1.IH" [OF _ refl _ _ _ refl _ rec]) simp_all
      with t1 show ?thesis
        by (blast intro: receive_only_trans receive_only_sleep_for)
    next
      case False
      with "1.prems" rcv Inr have "s' = s1"
        by (subst (asm) readMemory_loop.simps) (auto simp: Let_def split: if_splits)
      with t1 show ?thesis by simp
    qed
  qed
qed

lemma writeMemory_loop_receive_only:
  "writeMemory_loop bytes ident p buffer s = (r, s') \<Longrightarrow> receive_only s s'"
proof (induction bytes ident p buffer s rule: writeMemory_loop.induct)
  case (1 bytes ident p buffer s)
  obtain r1 s1 where rcv: "bulkReceive buffer s = (r1, s1)"
    by (cases "bulkReceive buffer s")
  note t1 = bulkReceive_receive_only [OF rcv]
  show ?case
  proof (cases r1)
    case (Inl e)
    with "1.prems" rcv t1 show ?thesis
      by (subst (asm) writeMemory_loop.simps) simp
  next
    case (Inr buf)
    show ?thesis
    proof (cases "hdr_magic buf = MAGIC \<and> hdr_id buf = ident \<and>
                  hdr_command buf = COMMAND_PENDING_ACK \<and> \<not> kMaxPendingLoops < p + 1")
      case True
      let ?s2 = "sleep_for (if pending_timeout_ms buf \<noteq> 0
                            then unat (pending_timeout_ms buf) else 1) s1"
      from "1.prems" rcv Inr True
      have rec: "writeMemory_loop bytes ident (p + 1) buf ?s2 = (r, s')"
        by (subst (asm) writeMemory_loop.simps) (simp add: Let_def)
      from True rcv Inr have "receive_only ?s2 s'"
        by (intro "1.IH" [OF _ refl _ _ _ refl _ rec]) simp_all
      with t1 show ?thesis
        by (blast intro: receive_only_trans receive_only_sleep_for)
    next
      case False
      with "1.prems" rcv Inr have "s' = s1"
        by (subst (asm) writeMemory_loop.simps) (auto simp: Let_def split: if_splits)
      with t1 show ?thesis by simp
    qed
  qed
qed

lemma send_transport_only:
  assumes "nextRequestId s = (ident, s1)" and "bulkSend frame s1 = (r2, s2)"
  shows "transport_only s s2"
  using assms unfolding transport_only_def nextRequestId_def bulkSend_def
  by (intro exI [of _ "requestId s2"] exI [of _ "bulk_in_script s"]
        exI [of _ "bulk_out_log s2"] exI [of _ "clock s"] exI [of _ "sleeps s"])
     (auto simp: Let_def split: if_splits)

lemma readMemory_transport_only:
  assumes "readMemory address bytes s = (r, s')"
  shows "transport_only s s'"
proof -
  obtain ident s1 where n: "nextRequestId s = (ident, s1)"
    by (cases "nextRequestId s")
  obtain r2 s2 where b: "bulkSend (UVCPReadMemoryCmd ident address bytes) s1 = (r2, s2)"
    by (cases "bulkSend (UVCPReadMemoryCmd ident address bytes) s1")
  note t = send_transport_only [OF n b]
  show ?thesis
  proof (cases "\<not> claimed s \<or> bytes = 0 \<or> isl r2")
    case True
    with assms n b t show ?thesis
      by (auto simp: readMemory_def isl_def split: if_splits)
  next
    case False
    with assms n b have "readMemory_loop bytes ident 0 [] s2 = (r, s')"
      by (cases r2) (auto simp: readMemory_def)
    from receive_only_transport_only [OF readMemory_loop_receive_only [OF this]] t
    show ?thesis by (blast intro: transport_only_trans)
  qed
qed

lemma writeMemory_transport_only:
  assumes "writeMemory address data bytes s = (r, s')"
  shows "transport_only s s'"
proof -
  obtain ident s1 where n: "nextRequestId s = (ident, s1)"
    by (cases "nextRequestId s")
  obtain r2 s2 where b: "bulkSend (UVCPWriteMemoryCmd ident address data bytes) s1 = (r2, s2)"
    by (cases "bulkSend (UVCPWriteMemoryCmd ident address data bytes) s1")
  note t = send_transport_only [OF n b]
  show ?thesis
  proof (cases "\<not> claimed s \<or> bytes = 0 \<or> isl r2")
    case True
    with assms n b t show ?thesis
      by (auto simp: writeMemory_def isl_def split: if_splits)
  next
    case False
    with assms n b have "writeMemory_loop bytes ident 0 [] s2 = (r, s')"
      by (cases r2) (auto simp: writeMemory_def)
    from receive_only_transport_only [OF writeMemory_loop_receive_only [OF this]] t
    show ?thesis by (blast intro: transport_only_trans)
  qed
qed

lemma readRegisters_transport_only:
  "readRegisters address n s = (r, s') \<Longrightarrow> transport_only s s'"
  by (auto simp: readRegisters_def split: if_splits elim!: andThen_cases
           dest: readMemory_transport_only)

lemma readRegister_transport_only:
  "readRegister addr s = (r, s') \<Longrightarrow> transport_only s s'"
  by (auto simp: readRegister_def elim!: andThen_cases dest: readRegisters_transport_only)

lemma writeRegister_transport_only:
  "writeRegister addr v s = (r, s') \<Longrightarrow> transport_only s s'"
  by (auto simp: writeRegister_def writeRegisters_def Let_def dest: writeMemory_transport_only)

text \<open>A register read or a write that succeeded was made on a claimed interface.\<close>

lemma writeMemory_Inr_claimed:
  assumes "writeMemory address data bytes s = (Inr u, s')"
  shows "claimed s'"
proof -
  from assms have "claimed s"
    by (auto simp: writeMemory_def Let_def split: if_splits)
  with transport_only_fields [OF writeMemory_transport_only [OF assms]] show ?thesis by simp
qed

lemma readRegister_Inr_claimed:
  assumes "readRegister addr s = (Inr v, s')"
  shows "claimed s'"
proof -
  from assms have "claimed s"
    by (auto simp: readRegister_def readRegisters_def readMemory_def Let_def
             split: if_splits elim!: andThen_cases)
  with transport_only_fields [OF readRegister_transport_only [OF assms]] show ?thesis by simp
qed

section \<open>The probe\<close>

text \<open>The state in which \<^verbatim>\<open>initialize\<close> comes to read the ChunkHint register: after the
  read of the two header registers and the read of the version register.\<close>

definition before_chunk_hint :: "sys \<Rightarrow> sys" where
  "before_chunk_hint s =
     (case readRegisters kTerminalBaseAddr 2 s of
        (regs, s1) \<Rightarrow>
          (case readRegisters kTerminalVersionAddr 1 (s1\<lparr>version := projr regs ! 1\<rparr>) of
             (Inr regs', s') \<Rightarrow> if regs' ! 0 \<noteq> 0 then s'\<lparr>version := regs' ! 0\<rparr> else s'
           | (Inl e, s') \<Rightarrow> s'))"

lemma chunkHint_before_chunk_hint: "chunkHint (before_chunk_hint s) = chunkHint s"
proof -
  obtain regs s1 where 1: "readRegisters kTerminalBaseAddr 2 s = (regs, s1)"
    by (cases "readRegisters kTerminalBaseAddr 2 s")
  obtain r2 s2 where 2: "readRegisters kTerminalVersionAddr 1 (s1\<lparr>version := projr regs ! 1\<rparr>) = (r2, s2)"
    by (cases "readRegisters kTerminalVersionAddr 1 (s1\<lparr>version := projr regs ! 1\<rparr>)")
  from transport_only_fields(4) [OF readRegisters_transport_only [OF 1]]
       transport_only_fields(4) [OF readRegisters_transport_only [OF 2]]
  have "chunkHint s2 = chunkHint s" by simp
  with 1 2 show ?thesis
    by (cases r2) (simp_all add: before_chunk_hint_def)
qed

text \<open>The read of the two header registers went through and the first of them holds
  the terminal magic.\<close>

definition header_ok :: "sys \<Rightarrow> bool" where
  "header_ok s =
     (case readRegisters kTerminalBaseAddr 2 s of
        (Inr regs, s1) \<Rightarrow> regs ! 0 = kTerminalMagic
      | (Inl e, s1) \<Rightarrow> False)"

text \<open>
  \<^bold>\<open>C8\<close> (amended).  On a client that was not yet initialised, \<^verbatim>\<open>initialize\<close> succeeds
  exactly when the header read goes through with the terminal magic, whatever comes of
  the read of the ChunkHint register.  After that success: when the read of the
  ChunkHint register succeeds, \<open>chunkHint\<close> is the value read if that is not zero, and
  512 if it is zero; when the read fails, \<open>chunkHint\<close> keeps the value it had (4096 in a
  new client), with 512 in place of zero.
\<close>

theorem chunk_hint_after_initialize:
  assumes "\<not> initialized s"
  shows "(fst (initialize s) = Inr ()) = header_ok s \<and>
         (header_ok s \<longrightarrow>
            (case readRegister kTerminalChunkHintAddr (before_chunk_hint s) of
               (Inr v, s4) \<Rightarrow> chunkHint (snd (initialize s)) = (if v = 0 then 512 else v)
             | (Inl e, s4) \<Rightarrow>
                 chunkHint (snd (initialize s)) = (if chunkHint s = 0 then 512 else chunkHint s)))"
proof (intro conjI impI)
  obtain r1 s1 where 1: "readRegisters kTerminalBaseAddr 2 s = (r1, s1)"
    by (cases "readRegisters kTerminalBaseAddr 2 s")
  show ok: "(fst (initialize s) = Inr ()) = header_ok s"
    using assms 1
    by (cases r1) (auto simp: initialize_def header_ok_def Let_def split: prod.splits)
  assume "header_ok s"
  with 1 obtain regs where r1: "r1 = Inr regs" and magic: "regs ! 0 = kTerminalMagic"
    by (cases r1) (auto simp: header_ok_def)
  obtain r4 s4 where 4: "readRegister kTerminalChunkHintAddr (before_chunk_hint s) = (r4, s4)"
    by (cases "readRegister kTerminalChunkHintAddr (before_chunk_hint s)")
  obtain r2 s2 where 2: "readRegisters kTerminalVersionAddr 1 (s1\<lparr>version := regs ! 1\<rparr>) = (r2, s2)"
    by (cases "readRegisters kTerminalVersionAddr 1 (s1\<lparr>version := regs ! 1\<rparr>)")
  define s3 where "s3 = (case r2 of Inr regs' \<Rightarrow> if regs' ! 0 \<noteq> 0 then s2\<lparr>version := regs' ! 0\<rparr> else s2
                          | Inl e \<Rightarrow> s2)"
  have b: "before_chunk_hint s = s3"
    using 1 r1 2 by (cases r2) (simp_all add: before_chunk_hint_def s3_def)
  have h: "chunkHint s3 = chunkHint s"
    using chunkHint_before_chunk_hint [of s] b by simp
  have init: "snd (initialize s) =
     (let (hint, s4) = readRegisterOr kTerminalChunkHintAddr (chunkHint s3) s3;
          s5 = s4\<lparr>chunkHint := hint\<rparr>;
          s6 = (if chunkHint s5 = 0 then s5\<lparr>chunkHint := 512\<rparr> else s5)
      in s6\<lparr>initialized := True\<rparr>)"
    using assms(1) 1 r1 magic 2
    by (cases r2) (simp_all add: initialize_def s3_def Let_def split: prod.splits)
  from 4 b have rd4: "readRegister kTerminalChunkHintAddr s3 = (r4, s4)" by simp
  show "case readRegister kTerminalChunkHintAddr (before_chunk_hint s) of
               (Inr v, s4) \<Rightarrow> chunkHint (snd (initialize s)) = (if v = 0 then 512 else v)
             | (Inl e, s4) \<Rightarrow>
                 chunkHint (snd (initialize s)) = (if chunkHint s = 0 then 512 else chunkHint s)"
  proof (cases r4)
    case (Inl e)
    with 4 rd4 h show ?thesis
      by (simp add: init readRegisterOr_def Let_def)
  next
    case (Inr v)
    with 4 rd4 show ?thesis
      by (simp add: init readRegisterOr_def Let_def)
  qed
qed

theorem chunk_hint_after_initialize_witness:
  "\<not> initialized (fresh (header_answers @ [(0, InData (UVCPReadMemoryAck 3 (le32 256)))])) \<and>
   header_ok (fresh (header_answers @ [(0, InData (UVCPReadMemoryAck 3 (le32 256)))])) \<and>
   fst (initialize (fresh (header_answers @ [(0, InData (UVCPReadMemoryAck 3 (le32 256)))]))) = Inr () \<and>
   chunkHint (snd (initialize (fresh (header_answers @ [(0, InData (UVCPReadMemoryAck 3 (le32 256)))])))) = 256 \<and>
   header_ok (fresh (header_answers @ [(0, InData (UVCPReadMemoryAck 3 (le32 0)))])) \<and>
   fst (initialize (fresh (header_answers @ [(0, InData (UVCPReadMemoryAck 3 (le32 0)))]))) = Inr () \<and>
   chunkHint (snd (initialize (fresh (header_answers @ [(0, InData (UVCPReadMemoryAck 3 (le32 0)))])))) = 512 \<and>
   header_ok (fresh header_answers) \<and>
   fst (readRegister kTerminalChunkHintAddr (before_chunk_hint (fresh header_answers)))
     = Inl BulkInFailed \<and>
   fst (initialize (fresh header_answers)) = Inr () \<and>
   chunkHint (snd (initialize (fresh header_answers))) = 4096"
proof -
  let ?a = "fresh (header_answers @ [(0, InData (UVCPReadMemoryAck 3 (le32 256)))])"
  let ?b = "fresh (header_answers @ [(0, InData (UVCPReadMemoryAck 3 (le32 0)))])"
  let ?c = "fresh header_answers"
  have a0: "\<not> initialized ?a" and b0: "\<not> initialized ?b" and c0: "\<not> initialized ?c"
    by (simp_all add: fresh_def)
  have a1: "header_ok ?a" and b1: "header_ok ?b" and c1: "header_ok ?c"
    by (simp_all add: header_ok_def header_answers_def run_defs addr_defs eval_defs)
  have a2: "fst (readRegister kTerminalChunkHintAddr (before_chunk_hint ?a)) = Inr 256"
    by (simp add: before_chunk_hint_def header_answers_def run_defs addr_defs eval_defs)
  have b2: "fst (readRegister kTerminalChunkHintAddr (before_chunk_hint ?b)) = Inr 0"
    by (simp add: before_chunk_hint_def header_answers_def run_defs addr_defs eval_defs)
  have c2: "fst (readRegister kTerminalChunkHintAddr (before_chunk_hint ?c)) = Inl BulkInFailed"
    by (simp add: before_chunk_hint_def header_answers_def run_defs addr_defs eval_defs)
  have c3: "chunkHint ?c = 4096" by (simp add: fresh_def)
  from chunk_hint_after_initialize [OF a0] a1 a2
  have a: "fst (initialize ?a) = Inr () \<and> chunkHint (snd (initialize ?a)) = 256"
    by (auto split: prod.splits sum.splits)
  from chunk_hint_after_initialize [OF b0] b1 b2
  have b: "fst (initialize ?b) = Inr () \<and> chunkHint (snd (initialize ?b)) = 512"
    by (auto split: prod.splits sum.splits)
  from chunk_hint_after_initialize [OF c0] c1 c2 c3
  have c: "fst (initialize ?c) = Inr () \<and> chunkHint (snd (initialize ?c)) = 4096"
    by (auto split: prod.splits sum.splits)
  from a0 a1 a b1 b c1 c2 c show ?thesis by simp
qed

text \<open>The claim as it stands fails where the ChunkHint read fails: the device answers
  the two reads before it and then no more; \<^verbatim>\<open>initialize\<close> succeeds, and the chunk hint
  is the 4096 of the member initialiser, which the device never reported.\<close>

theorem chunk_hint_read_failure_counterexample:
  "\<not> initialized (fresh header_answers) \<and>
   fst (initialize (fresh header_answers)) = Inr () \<and>
   fst (readRegister kTerminalChunkHintAddr (before_chunk_hint (fresh header_answers)))
     = Inl BulkInFailed \<and>
   chunkHint (snd (initialize (fresh header_answers))) = 4096"
  by (simp add: initialize_def before_chunk_hint_def header_answers_def run_defs addr_defs
        eval_defs)

section \<open>What the host sends\<close>

lemma readMemory_log:
  assumes "readMemory address bytes s = (r, s')"
  shows "bulk_out_log s' =
     (if claimed s \<and> bytes \<noteq> 0
      then bulk_out_log s @ [UVCPReadMemoryCmd (requestId s + 1) address bytes]
      else bulk_out_log s)"
proof (cases "claimed s \<and> bytes \<noteq> 0")
  case False
  with assms show ?thesis by (auto simp: readMemory_def split: if_splits)
next
  case True
  let ?f = "UVCPReadMemoryCmd (requestId s + 1) address bytes"
  let ?s2 = "s\<lparr>requestId := requestId s + 1, bulk_out_log := bulk_out_log s @ [?f]\<rparr>"
  show ?thesis
  proof (cases "bulk_out_ok s (length (bulk_out_log s))")
    case False
    with True assms show ?thesis
      by (auto simp: readMemory_def nextRequestId_def bulkSend_def Let_def)
  next
    case ok: True
    from readMemory_started [OF _ _ ok, of bytes address] True assms
    have "readMemory_loop bytes (requestId s + 1) 0 [] ?s2 = (r, s')" by simp
    from receive_only_fields(1) [OF readMemory_loop_receive_only [OF this]] True
    show ?thesis by simp
  qed
qed

lemma writeMemory_log:
  assumes "writeMemory address data bytes s = (r, s')"
  shows "bulk_out_log s' =
     (if claimed s \<and> bytes \<noteq> 0
      then bulk_out_log s @ [UVCPWriteMemoryCmd (requestId s + 1) address data bytes]
      else bulk_out_log s)"
proof (cases "claimed s \<and> bytes \<noteq> 0")
  case False
  with assms show ?thesis by (auto simp: writeMemory_def split: if_splits)
next
  case True
  let ?f = "UVCPWriteMemoryCmd (requestId s + 1) address data bytes"
  let ?s2 = "s\<lparr>requestId := requestId s + 1, bulk_out_log := bulk_out_log s @ [?f]\<rparr>"
  show ?thesis
  proof (cases "bulk_out_ok s (length (bulk_out_log s))")
    case False
    with True assms show ?thesis
      by (auto simp: writeMemory_def nextRequestId_def bulkSend_def Let_def)
  next
    case ok: True
    from writeMemory_started [OF _ _ ok, of bytes address data] True assms
    have "writeMemory_loop bytes (requestId s + 1) 0 [] ?s2 = (r, s')" by simp
    from receive_only_fields(1) [OF writeMemory_loop_receive_only [OF this]] True
    show ?thesis by simp
  qed
qed

text \<open>
  The writes the program makes, by address, data and length, for a client with
  password \<open>pw\<close> and echo setting \<open>echo\<close>: those of the session (authentication, start
  and reset), and those of file transfer and terminal traffic.  The lock of \<^verbatim>\<open>main\<close>,
  a zero written to AuthCmd, is not among them.
\<close>

definition session_ctrl :: "u32 \<Rightarrow> bool \<Rightarrow> u32" where
  "session_ctrl kind echo =
     kind OR kCtrlClearFlags OR (if echo then kCtrlEchoEnable else kCtrlEchoDisable)"

definition session_write :: "string \<Rightarrow> bool \<Rightarrow> u32 \<Rightarrow> u8 list \<Rightarrow> u16 \<Rightarrow> bool" where
  "session_write pw echo a d n =
     (a = kTerminalAuthBufAddr \<and> d = bytes_of pw \<and> n = word_of_nat (length pw) \<or>
      a = kTerminalAuthCmdAddr \<and> d = le32 1 \<and> n = 4 \<or>
      a = kTerminalStatusAddr \<and> d = le32 (session_ctrl kCtrlStart echo) \<and> n = 4 \<or>
      a = kTerminalStatusAddr \<and> d = le32 (session_ctrl kCtrlReset echo) \<and> n = 4)"

definition request_write :: "string \<Rightarrow> bool \<Rightarrow> u32 \<Rightarrow> u8 list \<Rightarrow> u16 \<Rightarrow> bool" where
  "request_write pw echo a d n =
     (session_write pw echo a d n \<or>
      a = kTerminalFileCmdAddr \<and> n = 4 \<and>
        (d = le32 kFileCmdReset \<or> d = le32 kFileCmdOpenRead \<or> d = le32 kFileCmdOpenWrite \<or>
         d = le32 kFileCmdClose) \<or>
      a = kTerminalFilePathAddr \<and> length d = kTerminalFilePathCapacity \<and> n = 0x60 \<or>
      a = kTerminalFileDataAddr \<and> d \<noteq> [] \<and> length d \<le> kTerminalFileDataWindow \<and>
        n = word_of_nat (length d) \<or>
      a = kTerminalDataAddr)"

definition host_request ::
  "(u32 \<Rightarrow> u8 list \<Rightarrow> u16 \<Rightarrow> bool) \<Rightarrow> u8 list \<Rightarrow> bool" where
  "host_request W f =
     ((\<exists>i a n. f = UVCPReadMemoryCmd i a n) \<or>
      (\<exists>i a d n. f = UVCPWriteMemoryCmd i a d n \<and> W a d n))"

text \<open>From \<open>s\<close> to \<open>s'\<close> the host has sent reads and writes of the kind \<open>W\<close> only, and
  its password, echo setting and claim on the interface are as they were.\<close>

definition steps ::
  "(string \<Rightarrow> bool \<Rightarrow> u32 \<Rightarrow> u8 list \<Rightarrow> u16 \<Rightarrow> bool) \<Rightarrow> sys \<Rightarrow> sys \<Rightarrow> bool" where
  "steps W s s' =
     ((\<exists>new. bulk_out_log s' = bulk_out_log s @ new \<and>
              list_all (host_request (W (password s) (echoEnabled s))) new) \<and>
      password s' = password s \<and> echoEnabled s' = echoEnabled s \<and> claimed s' = claimed s)"

lemma steps_mono:
  assumes "steps W s s'" and "\<And>pw e a d n. W pw e a d n \<Longrightarrow> W' pw e a d n"
  shows "steps W' s s'"
proof -
  from assms(1) obtain new where n: "bulk_out_log s' = bulk_out_log s @ new"
    and a: "list_all (host_request (W (password s) (echoEnabled s))) new"
    by (auto simp: steps_def)
  have "host_request (W' (password s) (echoEnabled s)) f"
    if "host_request (W (password s) (echoEnabled s)) f" for f
    using that assms(2) unfolding host_request_def by blast
  with a have "list_all (host_request (W' (password s) (echoEnabled s))) new"
    by (simp add: list_all_iff)
  with n assms(1) show ?thesis by (auto simp: steps_def)
qed

lemma steps_refl [simp]: "steps W s s"
  by (simp add: steps_def)

lemma steps_trans: "steps W s s1 \<Longrightarrow> steps W s1 s2 \<Longrightarrow> steps W s s2"
  by (auto simp: steps_def)

lemma steps_same_log:
  "bulk_out_log s' = bulk_out_log s \<Longrightarrow> password s' = password s \<Longrightarrow>
   echoEnabled s' = echoEnabled s \<Longrightarrow> claimed s' = claimed s \<Longrightarrow> steps W s s'"
  by (simp add: steps_def)

lemma steps_sleep_for [simp]: "steps W s (sleep_for ms s)"
  by (simp add: steps_def sleep_for_def)

lemma steps_print_out [simp]: "steps W s (print_out out s)"
  by (simp add: steps_def print_out_def)

lemma readMemory_steps: "readMemory address bytes s = (r, s') \<Longrightarrow> steps W s s'"
  using readMemory_log [of address bytes s r s']
    transport_only_fields [OF readMemory_transport_only, of address bytes s r s']
  by (auto simp: steps_def host_request_def)

lemma writeMemory_steps:
  "writeMemory address data bytes s = (r, s') \<Longrightarrow>
   W (password s) (echoEnabled s) address data bytes \<Longrightarrow> steps W s s'"
  using writeMemory_log [of address data bytes s r s']
    transport_only_fields [OF writeMemory_transport_only, of address data bytes s r s']
  by (auto simp: steps_def host_request_def)

lemma readRegisters_steps: "readRegisters address n s = (r, s') \<Longrightarrow> steps W s s'"
  by (auto simp: readRegisters_def split: if_splits elim!: andThen_cases dest: readMemory_steps)

lemma readRegister_steps: "readRegister addr s = (r, s') \<Longrightarrow> steps W s s'"
  by (auto simp: readRegister_def elim!: andThen_cases dest: readRegisters_steps)

lemma readRegisterOr_steps: "readRegisterOr addr fallback s = (v, s') \<Longrightarrow> steps W s s'"
  by (auto simp: readRegisterOr_def split: prod.splits sum.splits dest: readRegister_steps)

lemma writeRegister_steps:
  "writeRegister addr v s = (r, s') \<Longrightarrow>
   W (password s) (echoEnabled s) addr (le32 v) 4 \<Longrightarrow> steps W s s'"
  by (auto simp: writeRegister_def writeRegisters_def Let_def le32_def dest: writeMemory_steps)

lemma steps_update [simp]:
  "steps W s (s'\<lparr>version := v\<rparr>) = steps W s s'"
  "steps W s (s'\<lparr>chunkHint := h\<rparr>) = steps W s s'"
  "steps W s (s'\<lparr>initialized := b\<rparr>) = steps W s s'"
  "steps W s (s'\<lparr>local_written := w\<rparr>) = steps W s s'"
  "steps W s (s'\<lparr>stdin_polls := ps\<rparr>) = steps W s s'"
  "steps W s (s'\<lparr>clock := c\<rparr>) = steps W s s'"
  "steps W s (s'\<lparr>stdin_raw := b\<rparr>) = steps W s s'"
  by (simp_all add: steps_def)

lemma initialize_steps:
  assumes "initialize s = (r, s')"
  shows "steps W s s'"
proof (cases "initialized s")
  case True
  with assms show ?thesis by (simp add: initialize_def)
next
  case False
  obtain r1 s1 where 1: "readRegisters kTerminalBaseAddr 2 s = (r1, s1)"
    by (cases "readRegisters kTerminalBaseAddr 2 s")
  note st1 = readRegisters_steps [OF 1]
  show ?thesis
  proof (cases "\<exists>regs. r1 = Inr regs \<and> regs ! 0 = kTerminalMagic")
    case no: False
    with assms False 1 st1 show ?thesis
      by (cases r1) (auto simp: initialize_def split: if_splits)
  next
    case True
    then obtain regs where r1: "r1 = Inr regs" and magic: "regs ! 0 = kTerminalMagic" by auto
    obtain r2 s2 where 2: "readRegisters kTerminalVersionAddr 1 (s1\<lparr>version := regs ! 1\<rparr>) = (r2, s2)"
      by (cases "readRegisters kTerminalVersionAddr 1 (s1\<lparr>version := regs ! 1\<rparr>)")
    define s3 where "s3 = (case r2 of Inr regs' \<Rightarrow> if regs' ! 0 \<noteq> 0 then s2\<lparr>version := regs' ! 0\<rparr> else s2
                            | Inl e \<Rightarrow> s2)"
    have st2: "steps W s1 s3"
      using readRegisters_steps [OF 2] by (cases r2) (auto simp: s3_def steps_def)
    obtain hint s4 where 4: "readRegisterOr kTerminalChunkHintAddr (chunkHint s3) s3 = (hint, s4)"
      by (cases "readRegisterOr kTerminalChunkHintAddr (chunkHint s3) s3")
    note st3 = readRegisterOr_steps [OF 4]
    have "s' = (let s5 = s4\<lparr>chunkHint := hint\<rparr>;
                    s6 = (if chunkHint s5 = 0 then s5\<lparr>chunkHint := 512\<rparr> else s5)
                in s6\<lparr>initialized := True\<rparr>)"
      using assms False 1 r1 magic 2 4
      by (cases r2) (simp_all add: initialize_def s3_def Let_def)
    then have "steps W s4 s'" by (simp add: Let_def)
    with st1 st2 st3 show ?thesis by (blast intro: steps_trans)
  qed
qed

lemma ensureAuth_steps:
  assumes "ensureAuth s = (r, s')"
  shows "steps session_write s s'"
proof -
  obtain r1 s1 where 1: "readRegister kTerminalAuthStatusAddr s = (r1, s1)"
    by (cases "readRegister kTerminalAuthStatusAddr s")
  note st1 = readRegister_steps [OF 1]
  then have same: "password s1 = password s" "echoEnabled s1 = echoEnabled s"
    by (simp_all add: steps_def)
  show ?thesis
  proof (cases "\<exists>authed. r1 = Inr authed \<and> authed = 0 \<and> password s1 \<noteq> []")
    case False
    with assms 1 st1 show ?thesis
      by (cases r1) (auto simp: ensureAuth_def Let_def split: if_splits)
  next
    case True
    then have r1: "r1 = Inr 0" and pw: "password s1 \<noteq> []" by auto
    let ?pw = "password s1"
    from assms 1 r1 pw have rest:
      "andThen (writeMemory kTerminalAuthBufAddr (bytes_of ?pw) (word_of_nat (length ?pw)) s1)
         (\<lambda>_ s2. andThen (writeRegister kTerminalAuthCmdAddr 1 s2)
           (\<lambda>_ s3. andThen (readRegister kTerminalAuthStatusAddr s3)
             (\<lambda>authed' s4. if authed' = 0 then (Inl AuthFailed, s4) else (Inr (), s4)))) = (r, s')"
      by (simp add: ensureAuth_def Let_def)
    have "steps session_write s1 s'"
      using rest
      by (auto elim!: andThen_cases split: if_splits
               dest!: writeMemory_steps [where W = session_write] writeRegister_steps [where W = session_write] readRegister_steps [where W = session_write]
               simp: session_write_def
               intro: steps_trans)
    with st1 show ?thesis by (blast intro: steps_trans)
  qed
qed

lemma ensureSession_poll_steps:
  "ensureSession_poll deadline s = (r, s') \<Longrightarrow> steps W s s'"
proof (induction deadline s rule: ensureSession_poll.induct)
  case (1 deadline s)
  show ?case
  proof (cases "clock s < deadline")
    case False
    with "1.prems" show ?thesis by (subst (asm) ensureSession_poll.simps) simp
  next
    case True
    obtain r1 s1 where rd: "readRegister kTerminalStatusAddr s = (r1, s1)"
      by (cases "readRegister kTerminalStatusAddr s")
    note st1 = readRegister_steps [OF rd]
    show ?thesis
    proof (cases "\<exists>status. r1 = Inr status \<and> status AND kStatusReady = 0")
      case False
      with "1.prems" True rd st1 show ?thesis
        by (subst (asm) ensureSession_poll.simps) (cases r1; auto split: if_splits)
    next
      case again: True
      then obtain status where r1: "r1 = Inr status" and nr: "status AND kStatusReady = 0"
        by auto
      from "1.prems" True rd r1 nr
      have rec: "ensureSession_poll deadline (sleep_for 50 s1) = (r, s')"
        by (subst (asm) ensureSession_poll.simps) simp
      have "steps W (sleep_for 50 s1) s'"
        using True rd r1 nr rec by (intro "1.IH" [of status s1]) simp_all
      with st1 show ?thesis
        by (blast intro: steps_trans steps_sleep_for)
    qed
  qed
qed

lemma andThen_stepsE:
  assumes "andThen m f = (r, s')"
    and "\<And>r1 s1. m = (r1, s1) \<Longrightarrow> steps W s s1"
    and "\<And>v s1. m = (Inr v, s1) \<Longrightarrow> steps W s s1 \<Longrightarrow> f v s1 = (r, s') \<Longrightarrow> steps W s1 s'"
  shows "steps W s s'"
proof -
  obtain r1 s1 where m: "m = (r1, s1)" by (cases m)
  note st = assms(2) [OF m]
  show ?thesis
  proof (cases r1)
    case (Inl e)
    with assms(1) m st show ?thesis by simp
  next
    case (Inr v)
    with assms(1) m have "f v s1 = (r, s')" by simp
    from assms(3) [OF m [unfolded Inr] st this] st show ?thesis
      by (blast intro: steps_trans)
  qed
qed

lemma ctrl_word:
  "(if e then (k OR kCtrlClearFlags) OR kCtrlEchoEnable
    else (k OR kCtrlClearFlags) OR kCtrlEchoDisable) = session_ctrl k e"
  by (simp add: session_ctrl_def or.assoc)

lemma steps_fields:
  assumes "steps W s s'"
  shows "password s' = password s" "echoEnabled s' = echoEnabled s" "claimed s' = claimed s"
  using assms by (simp_all add: steps_def)

lemma ensureSession_steps:
  assumes "ensureSession s = (r, s')"
  shows "steps session_write s s'"
  using assms unfolding ensureSession_def
  apply (elim andThen_stepsE)
     apply (auto split: if_splits dest: initialize_steps [where W = session_write])[1]
    apply (auto dest: ensureAuth_steps)[1]
   apply (auto dest: readRegister_steps [where W = session_write])[1]
  apply (simp add: Let_def ctrl_word split: if_splits;
         elim andThen_stepsE;
         auto dest!: writeRegister_steps [where W = session_write] ensureSession_poll_steps [where W = session_write] simp: session_write_def)
  done

lemma reset_steps:
  assumes "reset s = (r, s')"
  shows "steps session_write s s'"
  using assms unfolding reset_def
  apply (elim andThen_stepsE)
   apply (auto dest: initialize_steps [where W = session_write])[1]
  apply (simp add: Let_def ctrl_word)
  apply (elim andThen_stepsE)
   apply (auto dest!: writeRegister_steps [where W = session_write] simp: session_write_def)[1]
  apply (drule ensureSession_steps)
  apply (auto simp: steps_def sleep_for_def)
  done

section \<open>Reading the log of requests\<close>

definition frame_is_write :: "u8 list \<Rightarrow> bool" where
  "frame_is_write f = (hdr_command f = COMMAND_WRITE_MEMORY_CMD)"

definition frame_address :: "u8 list \<Rightarrow> u8 list" where
  "frame_address f = take 8 (drop 12 f)"

definition frame_data :: "u8 list \<Rightarrow> u8 list" where
  "frame_data f = drop 20 f"

definition writes_to :: "u32 \<Rightarrow> u8 list \<Rightarrow> bool" where
  "writes_to a f = (frame_is_write f \<and> frame_address f = le64 (ucast a))"

definition sent_by :: "sys \<Rightarrow> sys \<Rightarrow> u8 list list" where
  "sent_by s s' = drop (length (bulk_out_log s)) (bulk_out_log s')"

definition exactly_one_echo :: "u32 \<Rightarrow> bool" where
  "exactly_one_echo ctrl = ((ctrl AND kCtrlEchoEnable \<noteq> 0) \<noteq> (ctrl AND kCtrlEchoDisable \<noteq> 0))"

lemma read_cmd_not_write: "\<not> frame_is_write (UVCPReadMemoryCmd i a n)"
  by (simp add: frame_is_write_def UVCPReadMemoryCmd_def wire_defs)

lemma write_cmd_parse:
  "frame_is_write (UVCPWriteMemoryCmd i a d n)"
  "frame_address (UVCPWriteMemoryCmd i a d n) = le64 (ucast a)"
  "frame_data (UVCPWriteMemoryCmd i a d n) = map (buf_at d) [0 ..< unat n]"
  by (simp_all add: frame_is_write_def frame_address_def frame_data_def UVCPWriteMemoryCmd_def
        UVCPHeader_def le16_def le32_def le64_def hdr_command_def rd16_def buf_at_def
        COMMAND_WRITE_MEMORY_CMD_def)

lemma steps_sent_by:
  assumes "steps W s s'"
  shows "bulk_out_log s' = bulk_out_log s @ sent_by s s'"
    and "list_all (host_request (W (password s) (echoEnabled s))) (sent_by s s')"
  using assms by (auto simp: steps_def sent_by_def)

lemma rd32_le32: "rd32 (le32 v) 0 = v"
  apply (simp add: rd32_def le32_def buf_at_def)
  apply (rule bit_word_eqI)
  apply (auto simp: bit_simps)
  subgoal for n by (cases "n < 24") auto
  done

lemma map_buf_at_le32: "map (buf_at (le32 v)) [0 ..< 4] = le32 v"
  by (simp add: le32_def buf_at_def upt_rec)

lemma map_buf_at_all: "map (buf_at d) [0 ..< length d] = d"
  by (rule nth_equalityI) (simp_all add: buf_at_def)

lemma session_ctrl_one_echo:
  "exactly_one_echo (session_ctrl kCtrlStart e)" "exactly_one_echo (session_ctrl kCtrlReset e)"
  by (cases e; simp add: session_ctrl_def exactly_one_echo_def ctrl_defs)+

lemma session_write_parse:
  assumes "host_request (session_write pw e) f" and "frame_is_write f"
  shows "writes_to kTerminalStatusAddr f \<and>
           (frame_data f = le32 (session_ctrl kCtrlStart e) \<or>
            frame_data f = le32 (session_ctrl kCtrlReset e)) \<and>
           \<not> writes_to kTerminalAuthBufAddr f \<and> \<not> writes_to kTerminalAuthCmdAddr f \<or>
         writes_to kTerminalAuthBufAddr f \<and>
           frame_data f = map (buf_at (bytes_of pw)) [0 ..< unat (word_of_nat (length pw) :: u16)] \<and>
           \<not> writes_to kTerminalStatusAddr f \<and> \<not> writes_to kTerminalAuthCmdAddr f \<or>
         writes_to kTerminalAuthCmdAddr f \<and> frame_data f = le32 1 \<and>
           \<not> writes_to kTerminalStatusAddr f \<and> \<not> writes_to kTerminalAuthBufAddr f"
proof -
  from assms obtain i a d n where f: "f = UVCPWriteMemoryCmd i a d n"
    and w: "session_write pw e a d n"
    by (auto simp: host_request_def read_cmd_not_write)
  have ne: "le64 (ucast kTerminalStatusAddr) \<noteq> le64 (ucast kTerminalAuthBufAddr)"
    "le64 (ucast kTerminalStatusAddr) \<noteq> le64 (ucast kTerminalAuthCmdAddr)"
    "le64 (ucast kTerminalAuthBufAddr) \<noteq> le64 (ucast kTerminalAuthCmdAddr)"
    by (simp_all add: le64_def addr_defs)
  from w show ?thesis
    unfolding session_write_def
    using ne ne [symmetric]
    by (elim disjE conjE) (simp_all add: f writes_to_def write_cmd_parse map_buf_at_le32)
qed

text \<open>
  \<^bold>\<open>C9.\<close>  Whatever \<^verbatim>\<open>ensureSession\<close> and \<^verbatim>\<open>reset\<close> write to the Status/Control register
  has exactly one of \<open>ECHO_ENABLE\<close> and \<open>ECHO_DISABLE\<close> set.  \<open>sent_by s s'\<close> are the
  requests handed to the bulk OUT endpoint between the two states.
\<close>

theorem echo_bits_exclusive:
  "bulk_out_log (snd (ensureSession s)) = bulk_out_log s @ sent_by s (snd (ensureSession s)) \<and>
   (\<forall>f \<in> set (sent_by s (snd (ensureSession s))).
      writes_to kTerminalStatusAddr f \<longrightarrow> exactly_one_echo (rd32 (frame_data f) 0)) \<and>
   bulk_out_log (snd (reset s)) = bulk_out_log s @ sent_by s (snd (reset s)) \<and>
   (\<forall>f \<in> set (sent_by s (snd (reset s))).
      writes_to kTerminalStatusAddr f \<longrightarrow> exactly_one_echo (rd32 (frame_data f) 0))"
proof -
  have echo: "exactly_one_echo (rd32 (frame_data f) 0)"
    if "host_request (session_write pw e) f" and "writes_to kTerminalStatusAddr f" for pw e f
    using session_write_parse [OF that(1)] that(2) session_ctrl_one_echo [of e]
    by (auto simp: writes_to_def rd32_le32)
  have "steps session_write s (snd (ensureSession s))"
    by (rule ensureSession_steps [of s "fst (ensureSession s)"]) simp
  note a = steps_sent_by [OF this]
  have "steps session_write s (snd (reset s))"
    by (rule reset_steps [of s "fst (reset s)"]) simp
  note b = steps_sent_by [OF this]
  from a b echo show ?thesis
    by (auto simp: list_all_iff)
qed

definition ready_device :: sys where
  "ready_device = fresh (header_answers @
     [(0, InData (UVCPReadMemoryAck 3 (le32 256))),
      (0, InData (UVCPReadMemoryAck 4 (le32 1))),
      (0, InData (UVCPReadMemoryAck 5 (le32 0))),
      (0, InData (UVCPWriteMemoryAck 6 4)),
      (0, InData (UVCPReadMemoryAck 7 (le32 1)))])"

definition locked_device :: sys where
  "locked_device = setPassword ''pw'' (fresh (header_answers @
     [(0, InData (UVCPReadMemoryAck 3 (le32 256))),
      (0, InData (UVCPWriteMemoryAck 4 4)),
      (0, InData (UVCPReadMemoryAck 5 (le32 0))),
      (0, InData (UVCPWriteMemoryAck 6 2)),
      (0, InData (UVCPWriteMemoryAck 7 4)),
      (0, InData (UVCPReadMemoryAck 8 (le32 1))),
      (0, InData (UVCPReadMemoryAck 9 (le32 1)))]))"

lemma ready_device_run:
  "fst (ensureSession ready_device) = Inr ()"
  "sent_by ready_device (snd (ensureSession ready_device)) =
     [UVCPReadMemoryCmd 1 kTerminalBaseAddr 8, UVCPReadMemoryCmd 2 kTerminalVersionAddr 4,
      UVCPReadMemoryCmd 3 kTerminalChunkHintAddr 4, UVCPReadMemoryCmd 4 kTerminalAuthStatusAddr 4,
      UVCPReadMemoryCmd 5 kTerminalStatusAddr 4,
      UVCPWriteMemoryCmd 6 kTerminalStatusAddr (le32 49) 4,
      UVCPReadMemoryCmd 7 kTerminalStatusAddr 4]"
  by (simp_all add: sent_by_def ready_device_def session_defs run_defs addr_defs eval_defs ctrl_defs)

lemma locked_device_run:
  "fst (reset locked_device) = Inr ()"
  "sent_by locked_device (snd (reset locked_device)) =
     [UVCPReadMemoryCmd 1 kTerminalBaseAddr 8, UVCPReadMemoryCmd 2 kTerminalVersionAddr 4,
      UVCPReadMemoryCmd 3 kTerminalChunkHintAddr 4,
      UVCPWriteMemoryCmd 4 kTerminalStatusAddr (le32 50) 4,
      UVCPReadMemoryCmd 5 kTerminalAuthStatusAddr 4,
      UVCPWriteMemoryCmd 6 kTerminalAuthBufAddr (bytes_of ''pw'') 2,
      UVCPWriteMemoryCmd 7 kTerminalAuthCmdAddr (le32 1) 4,
      UVCPReadMemoryCmd 8 kTerminalAuthStatusAddr 4,
      UVCPReadMemoryCmd 9 kTerminalStatusAddr 4]"
  by (simp_all add: sent_by_def locked_device_def session_defs run_defs addr_defs eval_defs ctrl_defs)

theorem echo_bits_exclusive_witness:
  "UVCPWriteMemoryCmd 6 kTerminalStatusAddr (le32 49) 4
     \<in> set (sent_by ready_device (snd (ensureSession ready_device))) \<and>
   writes_to kTerminalStatusAddr (UVCPWriteMemoryCmd 6 kTerminalStatusAddr (le32 49) 4) \<and>
   exactly_one_echo (rd32 (frame_data (UVCPWriteMemoryCmd 6 kTerminalStatusAddr (le32 49) 4)) 0) \<and>
   UVCPWriteMemoryCmd 4 kTerminalStatusAddr (le32 50) 4
     \<in> set (sent_by locked_device (snd (reset locked_device))) \<and>
   writes_to kTerminalStatusAddr (UVCPWriteMemoryCmd 4 kTerminalStatusAddr (le32 50) 4) \<and>
   exactly_one_echo (rd32 (frame_data (UVCPWriteMemoryCmd 4 kTerminalStatusAddr (le32 50) 4)) 0)"
proof -
  let ?f = "UVCPWriteMemoryCmd 6 kTerminalStatusAddr (le32 49) 4"
  let ?g = "UVCPWriteMemoryCmd 4 kTerminalStatusAddr (le32 50) 4"
  have m: "?f \<in> set (sent_by ready_device (snd (ensureSession ready_device)))"
    "?g \<in> set (sent_by locked_device (snd (reset locked_device)))"
    by (simp_all add: ready_device_run locked_device_run)
  have w: "writes_to kTerminalStatusAddr ?f" "writes_to kTerminalStatusAddr ?g"
    by (simp_all add: writes_to_def write_cmd_parse)
  from echo_bits_exclusive [of ready_device] m(1) w(1)
  have 1: "exactly_one_echo (rd32 (frame_data ?f) 0)" by blast
  from echo_bits_exclusive [of locked_device] m(2) w(2)
  have 2: "exactly_one_echo (rd32 (frame_data ?g) 0)" by blast
  from m w 1 2 show ?thesis by simp
qed




section \<open>The one-shot runner\<close>

text \<open>
  \<^bold>\<open>C5\<close> (amended).  \<^verbatim>\<open>runOnce\<close> on a command whose first token is \<open>u3vget\<close> or
  \<open>u3vput\<close>: with exactly three tokens it is the file transfer, and the transfer's
  result is the runner's; with any other number of tokens nothing is sent to the
  device and the runner reports success.  On every other command, the runner sends it
  and drains the output once; it fails when either fails.
\<close>

theorem runOnce_dispatch:
  "(let tokens = splitTokens command in
     (tokens \<noteq> [] \<and> tokens ! 0 = ''u3vget'' \<and> length tokens = 3 \<longrightarrow>
        runOnce command s = performFileDownload (tokens ! 1) (tokens ! 2) s) \<and>
     (tokens \<noteq> [] \<and> tokens ! 0 = ''u3vput'' \<and> length tokens = 3 \<longrightarrow>
        runOnce command s = performFileUpload (tokens ! 1) (tokens ! 2) s) \<and>
     (tokens \<noteq> [] \<and> (tokens ! 0 = ''u3vget'' \<or> tokens ! 0 = ''u3vput'') \<and> length tokens \<noteq> 3 \<longrightarrow>
        runOnce command s = (Inr (), s)) \<and>
     (tokens = [] \<or> tokens ! 0 \<noteq> ''u3vget'' \<and> tokens ! 0 \<noteq> ''u3vput'' \<longrightarrow>
        runOnce command s =
          andThen (sendCommand command s) (\<lambda>_ s2.
            case drainOutput 200 5000 s2 of
              ((Some e, out), s3) \<Rightarrow> (Inl e, s3)
            | ((None, out), s3) \<Rightarrow> (Inr (), print_out out s3))))"
proof -
  have unit: "andThen (andThen r (\<lambda>_ s1. (Inr True, s1)))
                (\<lambda>handled s2. if handled then (Inr (), s2) else g s2) = r"
    for r :: "unit result" and g
    by (cases r; cases "fst r") (auto simp: andThen_def)
  show ?thesis
    by (auto simp: runOnce_def handleFileTransferCommand_def Let_def unit)
qed

theorem runOnce_dispatch_witness:
  "splitTokens ''u3vget /a b'' = [''u3vget'', ''/a'', ''b''] \<and>
   runOnce ''u3vget /a b'' (fresh []) = performFileDownload ''/a'' ''b'' (fresh []) \<and>
   splitTokens ''u3vput  b /a '' = [''u3vput'', ''b'', ''/a''] \<and>
   runOnce ''u3vput  b /a '' (fresh []) = performFileUpload ''b'' ''/a'' (fresh []) \<and>
   splitTokens ''u3vget /a'' = [''u3vget'', ''/a''] \<and>
   runOnce ''u3vget /a'' (fresh []) = (Inr (), fresh []) \<and>
   splitTokens ''ls -l'' = [''ls'', ''-l''] \<and>
   runOnce ''ls -l'' (fresh []) =
     andThen (sendCommand ''ls -l'' (fresh [])) (\<lambda>_ s2.
       case drainOutput 200 5000 s2 of
         ((Some e, out), s3) \<Rightarrow> (Inl e, s3)
       | ((None, out), s3) \<Rightarrow> (Inr (), print_out out s3))"
proof -
  have t: "splitTokens ''u3vget /a b'' = [''u3vget'', ''/a'', ''b'']"
    "splitTokens ''u3vput  b /a '' = [''u3vput'', ''b'', ''/a'']"
    "splitTokens ''u3vget /a'' = [''u3vget'', ''/a'']"
    "splitTokens ''ls -l'' = [''ls'', ''-l'']"
    by (simp_all add: splitTokens_def isspace_def)
  from runOnce_dispatch [of "''u3vget /a b''" "fresh []"]
       runOnce_dispatch [of "''u3vput  b /a ''" "fresh []"]
       runOnce_dispatch [of "''u3vget /a''" "fresh []"]
       runOnce_dispatch [of "''ls -l''" "fresh []"]
  show ?thesis
    unfolding t Let_def by simp
qed

text \<open>The claim as it stands fails on \<open>u3vget\<close> with one argument: it is not a transfer
  with three tokens, yet the command is not sent.  The runner hands nothing to the
  device and reports success, where sending the command would have made a request.\<close>

theorem runOnce_usage_counterexample:
  "splitTokens ''u3vget /a'' = [''u3vget'', ''/a''] \<and>
   runOnce ''u3vget /a'' (fresh []) = (Inr (), fresh []) \<and>
   bulk_out_log (fresh []) = [] \<and>
   bulk_out_log (snd (sendCommand ''u3vget /a'' (fresh []))) \<noteq> []"
  by (simp add: splitTokens_def isspace_def runOnce_def handleFileTransferCommand_def
        sendCommand_def session_defs run_defs fresh_def)

section \<open>What a file transfer sends\<close>

lemma session_steps:
  "ensureSession s = (r, s') \<Longrightarrow> steps request_write s s'"
  by (rule steps_mono [OF ensureSession_steps]) (auto simp: request_write_def)

lemma sendFileCommand_steps:
  assumes "sendFileCommand cmd s = (r, s')"
    and "cmd = kFileCmdReset \<or> cmd = kFileCmdOpenRead \<or> cmd = kFileCmdOpenWrite \<or> cmd = kFileCmdClose"
  shows "steps request_write s s'"
  using assms unfolding sendFileCommand_def
  by (auto dest!: writeRegister_steps [where W = request_write] simp: request_write_def)

lemma checkFileError_steps: "checkFileError s = (r, s') \<Longrightarrow> steps W s s'"
  unfolding checkFileError_def readFileStatus_def readFileResult_def
  by (elim andThen_stepsE; auto split: if_splits elim!: andThen_stepsE dest: readRegister_steps)

lemma closeFileChannel_steps: "closeFileChannel s = (r, s') \<Longrightarrow> steps request_write s s'"
  unfolding closeFileChannel_def
  apply (elim andThen_stepsE)
   apply (auto dest: sendFileCommand_steps)[1]
  apply (drule checkFileError_steps [where W = request_write])
  apply (auto simp: steps_def sleep_for_def)
  done

lemma prepareFilePath_steps: "prepareFilePath remotePath s = (r, s') \<Longrightarrow> steps request_write s s'"
  unfolding prepareFilePath_def
  apply (cases "remotePath = []")
   apply simp
  apply simp
  apply (elim andThen_stepsE)
   apply (auto dest: sendFileCommand_steps)[1]
  apply (auto split: if_splits simp: Let_def
              dest!: writeMemory_steps [where W = request_write])
  apply (auto simp: request_write_def kTerminalFilePathCapacity_def bytes_of_def)
  done

lemma waitForFileOpen_loop_steps:
  "waitForFileOpen_loop modeBit deadline s = (r, s') \<Longrightarrow> steps W s s'"
proof (induction modeBit deadline s rule: waitForFileOpen_loop.induct)
  case (1 modeBit deadline s)
  show ?case
  proof (cases "clock s < deadline")
    case False
    with "1.prems" show ?thesis by (subst (asm) waitForFileOpen_loop.simps) simp
  next
    case True
    obtain r1 s1 where rd: "readFileStatus s = (r1, s1)"
      by (cases "readFileStatus s")
    then have st1: "steps W s s1"
      by (auto simp: readFileStatus_def dest: readRegister_steps)
    show ?thesis
    proof (cases "\<exists>status. r1 = Inr status \<and> status AND modeBit = 0 \<and>
                    status AND kFileStatusError = 0")
      case False
      with "1.prems" True rd st1 show ?thesis
        by (subst (asm) waitForFileOpen_loop.simps)
           (cases r1; auto split: if_splits dest!: checkFileError_steps [where W = W]
              intro: steps_trans)
    next
      case again: True
      then obtain status where r1: "r1 = Inr status" and nr: "status AND modeBit = 0"
        "status AND kFileStatusError = 0"
        by auto
      from "1.prems" True rd r1 nr
      have rec: "waitForFileOpen_loop modeBit deadline (sleep_for 10 s1) = (r, s')"
        by (subst (asm) waitForFileOpen_loop.simps) simp
      have "steps W (sleep_for 10 s1) s'"
        using True rd r1 nr rec by (intro "1.IH" [of status s1]) simp_all
      with st1 show ?thesis
        by (blast intro: steps_trans steps_sleep_for)
    qed
  qed
qed

lemma upload_loop_steps:
  "upload_loop src s = (r, s') \<Longrightarrow> steps request_write s s'"
proof (induction src s rule: upload_loop.induct)
  case (1 src s)
  let ?got = "min kTerminalFileDataWindow (length src)"
  show ?case
  proof (cases "?got = 0")
    case True
    with "1.prems" show ?thesis by (subst (asm) upload_loop.simps) (simp add: Let_def)
  next
    case False
    then have w: "request_write (password s) (echoEnabled s) kTerminalFileDataAddr
                    (take ?got src) (word_of_nat ?got)"
      by (auto simp: request_write_def min_def)
    from "1.prems" False
    have run: "andThen (writeMemory kTerminalFileDataAddr (take ?got src) (word_of_nat ?got) s)
             (\<lambda>_ s1. andThen (readFileStatus s1) (\<lambda>status s2.
                if status AND kFileStatusError \<noteq> 0 then checkFileError s2
                else if ?got < kTerminalFileDataWindow then (Inr (), s2)
                else upload_loop (drop ?got src) s2)) = (r, s')"
      by (subst (asm) upload_loop.simps) (simp add: Let_def)
    show ?thesis
      using run
    proof (elim andThen_stepsE [where W = request_write])
      fix r1 s1
      assume "writeMemory kTerminalFileDataAddr (take ?got src) (word_of_nat ?got) s = (r1, s1)"
      from writeMemory_steps [where W = request_write, OF this w] show "steps request_write s s1" .
    next
      fix v s1 r2 s2
      assume "readFileStatus s1 = (r2, s2)"
      then show "steps request_write s1 s2"
        by (auto simp: readFileStatus_def dest: readRegister_steps)
    next
      fix v s1 status s2
      assume wr: "writeMemory kTerminalFileDataAddr (take ?got src) (word_of_nat ?got) s = (Inr v, s1)"
        and rd: "readFileStatus s1 = (Inr status, s2)"
        and tail: "(if status AND kFileStatusError \<noteq> 0 then checkFileError s2
                    else if ?got < kTerminalFileDataWindow then (Inr (), s2)
                    else upload_loop (drop ?got src) s2) = (r, s')"
      show "steps request_write s2 s'"
      proof (cases "status AND kFileStatusError \<noteq> 0 \<or> ?got < kTerminalFileDataWindow")
        case True
        with tail show ?thesis
          by (auto split: if_splits dest: checkFileError_steps)
      next
        case no: False
        with tail have rec: "upload_loop (drop ?got src) s2 = (r, s')" by simp
        from no False wr rd show ?thesis
          by (intro "1.IH" [OF refl _ _ _ _ _ rec]) auto
      qed
    qed
  qed
qed

lemma download_loop_steps:
  "download_loop localPath out s = (r, s') \<Longrightarrow> steps W s s'"
proof (induction localPath out s rule: download_loop.induct)
  case (1 localPath out s)
  obtain r1 s1 where a: "readFileDataAvail s = (r1, s1)"
    by (cases "readFileDataAvail s")
  then have st1: "steps W s s1"
    by (auto simp: readFileDataAvail_def dest: readRegister_steps)
  show ?case
  proof (cases r1)
    case (Inl e)
    with "1.prems" a st1 show ?thesis
      by (subst (asm) download_loop.simps) simp
  next
    case (Inr avail)
    show ?thesis
    proof (cases "avail = 0")
      case True
      obtain r2 s2 where b: "readFileStatus s1 = (r2, s2)"
        by (cases "readFileStatus s1")
      then have st2: "steps W s1 s2"
        by (auto simp: readFileStatus_def dest: readRegister_steps)
      show ?thesis
      proof (cases "\<exists>status. r2 = Inr status \<and> status AND kFileStatusError = 0 \<and>
                      status AND kFileStatusEof = 0")
        case False
        with "1.prems" a Inr True b st1 st2 show ?thesis
          by (subst (asm) download_loop.simps)
             (cases r2; auto split: if_splits prod.splits sum.splits
                dest!: checkFileError_steps [where W = W] intro: steps_trans)
      next
        case again: True
        then obtain status where r2: "r2 = Inr status"
          and nr: "status AND kFileStatusError = 0" "status AND kFileStatusEof = 0"
          by auto
        from "1.prems" a Inr True b r2 nr
        have rec: "download_loop localPath out (sleep_for 10 s2) = (r, s')"
          by (subst (asm) download_loop.simps) simp
        have "steps W (sleep_for 10 s2) s'"
          using a Inr True b r2 nr rec
          by (intro "1.IH"(1)) (auto intro: sym)
        with st1 st2 show ?thesis
          by (blast intro: steps_trans steps_sleep_for)
      qed
    next
      case False
      obtain r2 s2 where b: "readMemory kTerminalFileDataAddr (ucast avail) s1 = (r2, s2)"
        by (cases "readMemory kTerminalFileDataAddr (ucast avail) s1")
      note st2 = readMemory_steps [OF b, where W = W]
      show ?thesis
      proof (cases "\<exists>buffer. r2 = Inr buffer \<and>
          local_write_ok s2 localPath (length (out @ map (buf_at buffer) [0 ..< unat avail]))")
        case no: False
        with "1.prems" a Inr False b st1 st2 show ?thesis
          by (subst (asm) download_loop.simps)
             (cases r2; auto simp: Let_def split: if_splits intro: steps_trans)
      next
        case True
        then obtain buffer where r2: "r2 = Inr buffer"
          and ok: "local_write_ok s2 localPath (length (out @ map (buf_at buffer) [0 ..< unat avail]))"
          by auto
        let ?out = "out @ map (buf_at buffer) [0 ..< unat avail]"
        from "1.prems" a Inr False b r2 ok
        have rec: "download_loop localPath ?out s2 = (r, s')"
          by (subst (asm) download_loop.simps) (simp add: Let_def)
        have "steps W s2 s'"
          using a Inr False b r2 ok rec
          by (intro "1.IH"(2)) (auto intro: sym)
        with st1 st2 show ?thesis
          by (blast intro: steps_trans)
      qed
    qed
  qed
qed

lemma finishTransfer_steps: "finishTransfer failure s = (r, s') \<Longrightarrow> steps request_write s s'"
  by (auto simp: finishTransfer_def split: prod.splits sum.splits option.splits
           dest: closeFileChannel_steps)

lemma snd_closeFileChannel_steps: "steps request_write s (snd (closeFileChannel s))"
  by (rule closeFileChannel_steps [of s "fst (closeFileChannel s)"]) simp

lemma performFileUpload_steps:
  "performFileUpload localPath remotePath s = (r, s') \<Longrightarrow> steps request_write s s'"
  unfolding performFileUpload_def
  apply (cases "local_files s localPath")
   apply simp
  apply simp
  apply (elim andThen_stepsE)
     apply (auto dest: session_steps)[1]
    apply (auto dest: prepareFilePath_steps)[1]
   apply (auto dest: sendFileCommand_steps)[1]
  apply (auto split: prod.splits sum.splits simp: waitForFileOpen_def
      dest!: waitForFileOpen_loop_steps [where W = request_write] upload_loop_steps
             finishTransfer_steps
      intro: steps_trans snd_closeFileChannel_steps)
  done

lemma readFileSize_steps: "steps W s (snd (readFileSize s))"
proof -
  obtain r s' where 1: "readFileSize s = (r, s')" by (cases "readFileSize s")
  then have "steps W s s'"
    unfolding readFileSize_def
    by (elim andThen_stepsE) (auto dest: readRegister_steps)
  with 1 show ?thesis by simp
qed

lemma download_tail_steps:
  assumes tail: "(case waitForFileOpen kFileStatusReading 500 s3 of
         (Inl e, s4) \<Rightarrow> (Inl e, snd (closeFileChannel s4))
       | (Inr _, s4) \<Rightarrow>
           (let s5 = snd (readFileSize s4)
            in if \<not> local_writable s5 localPath
               then (Inl LocalOpenFailed, snd (closeFileChannel s5))
               else
                 (case download_loop localPath [] s5 of
                    ((failure, out), s6) \<Rightarrow>
                      finishTransfer failure
                        (s6\<lparr>local_written := (localPath, out) # local_written s6\<rparr>)))) = (r, s')"
  shows "steps request_write s3 s'"
proof -
  obtain r4 s4 where w: "waitForFileOpen kFileStatusReading 500 s3 = (r4, s4)"
    by (cases "waitForFileOpen kFileStatusReading 500 s3")
  then have st4: "steps request_write s3 s4"
    by (auto simp: waitForFileOpen_def dest: waitForFileOpen_loop_steps)
  show "steps request_write s3 s'"
  proof (cases r4)
    case (Inl e)
    with tail w have "s' = snd (closeFileChannel s4)" by auto
    with st4 snd_closeFileChannel_steps [of s4] show ?thesis
      by (blast intro: steps_trans)
  next
    case (Inr u)
    let ?s5 = "snd (readFileSize s4)"
    have st5: "steps request_write s4 ?s5" by (rule readFileSize_steps)
    show ?thesis
    proof (cases "local_writable ?s5 localPath")
      case False
      with tail w Inr have "s' = snd (closeFileChannel ?s5)" by (auto simp: Let_def)
      with st4 st5 snd_closeFileChannel_steps [of ?s5] show ?thesis
        by (blast intro: steps_trans)
    next
      case True
      obtain failure out s6 where d: "download_loop localPath [] ?s5 = ((failure, out), s6)"
        by (cases "download_loop localPath [] ?s5") auto
      let ?s7 = "s6\<lparr>local_written := (localPath, out) # local_written s6\<rparr>"
      from tail w Inr True d have "finishTransfer failure ?s7 = (r, s')"
        by (simp add: Let_def)
      from finishTransfer_steps [OF this] have "steps request_write ?s7 s'" .
      moreover have "steps request_write ?s5 ?s7"
        using download_loop_steps [OF d, where W = request_write] by simp
      ultimately show ?thesis using st4 st5
        by (blast intro: steps_trans)
    qed
  qed
qed

lemma performFileDownload_steps:
  assumes "performFileDownload remotePath localPath s = (r, s')"
  shows "steps request_write s s'"
  using assms unfolding performFileDownload_def
  apply (elim andThen_stepsE [where W = request_write])
     apply (erule session_steps)
    apply (erule prepareFilePath_steps)
   apply (auto dest: sendFileCommand_steps)[1]
  apply (erule download_tail_steps)
  done

subsection \<open>From the remote path on\<close>

lemma sendFileCommand_Inr_claimed:
  "sendFileCommand cmd s = (Inr u, s') \<Longrightarrow> claimed s'"
  by (auto simp: sendFileCommand_def writeRegister_def writeRegisters_def Let_def
           dest: writeMemory_Inr_claimed)

text \<open>What a transfer sends once \<^verbatim>\<open>prepareFilePath\<close> has returned.\<close>

lemma performFileDownload_after_path:
  assumes "ensureSession s = (Inr u, s1)" and "prepareFilePath remotePath s1 = (r2, s2)"
    and "performFileDownload remotePath localPath s = (r, s')"
  shows "steps request_write s2 s'"
  using assms(3) unfolding performFileDownload_def
  apply (simp add: assms(1,2))
  apply (cases r2)
   apply simp
  apply simp
  apply (elim andThen_stepsE [where W = request_write])
   apply (auto dest: sendFileCommand_steps)[1]
  apply (erule download_tail_steps)
  done

lemma performFileUpload_after_path:
  assumes "local_files s localPath = Some content"
    and "ensureSession s = (Inr u, s1)" and "prepareFilePath remotePath s1 = (r2, s2)"
    and "performFileUpload localPath remotePath s = (r, s')"
  shows "steps request_write s2 s'"
  using assms(4) unfolding performFileUpload_def
  apply (simp add: assms(1,2,3))
  apply (cases r2)
   apply simp
  apply simp
  apply (elim andThen_stepsE [where W = request_write])
   apply (auto dest: sendFileCommand_steps)[1]
  apply (auto split: prod.splits sum.splits simp: waitForFileOpen_def
      dest!: waitForFileOpen_loop_steps [where W = request_write] upload_loop_steps
             finishTransfer_steps
      intro: steps_trans snd_closeFileChannel_steps)
  done

text \<open>A failure of \<^verbatim>\<open>prepareFilePath\<close> is the failure of the transfer.\<close>

lemma transfer_path_failure:
  assumes "ensureSession s = (Inr (), s1)" and "prepareFilePath remotePath s1 = (Inl e, s2)"
  shows "performFileDownload remotePath localPath s = (Inl e, s2)"
    and "local_files s localPath \<noteq> None \<Longrightarrow>
         performFileUpload localPath remotePath s = (Inl e, s2)"
  using assms by (auto simp: performFileDownload_def performFileUpload_def)

lemma transfer_path_isl:
  assumes "ensureSession s = (Inr (), s1)" and "isl (fst (prepareFilePath remotePath s1))"
  shows "isl (fst (performFileDownload remotePath localPath s))"
    and "isl (fst (performFileUpload localPath remotePath s))"
proof -
  obtain e s2 where p: "prepareFilePath remotePath s1 = (Inl e, s2)"
    using assms(2) by (cases "prepareFilePath remotePath s1"; cases "fst (prepareFilePath remotePath s1)") auto
  from transfer_path_failure(1) [OF assms(1) p]
  show "isl (fst (performFileDownload remotePath localPath s))" by simp
  show "isl (fst (performFileUpload localPath remotePath s))"
  proof (cases "local_files s localPath")
    case None
    then show ?thesis by (simp add: performFileUpload_def)
  next
    case (Some content)
    with transfer_path_failure(2) [OF assms(1) p, of localPath] show ?thesis by simp
  qed
qed

text \<open>
  \<^bold>\<open>C6\<close> (amended).  \<^verbatim>\<open>performFileDownload\<close> and \<^verbatim>\<open>performFileUpload\<close> come to the remote
  path once \<^verbatim>\<open>ensureSession\<close> has succeeded, and the upload once its local file is open;
  \<open>s1\<close> is the state then.  From there on: an empty path is refused with
  \<open>PathRequired\<close> and the state is \<open>s1\<close> still, so nothing more was sent.  A path of up
  to 0x5F bytes is staged: once the Reset command has gone through, the path padded
  with NUL bytes to the 0x60 bytes of the FilePath area is what is written there, as
  the request that follows the Reset command, and the result of \<^verbatim>\<open>prepareFilePath\<close> is
  the result of that write.  A path of 0x60 bytes or more always fails, with
  \<open>PathTooLong\<close> once the Reset command has gone through.
\<close>

theorem transfer_path_lengths:
  "(remotePath = [] \<longrightarrow>
      prepareFilePath remotePath s1 = (Inl PathRequired, s1) \<and>
      (ensureSession s = (Inr (), s1) \<longrightarrow>
         performFileDownload remotePath localPath s = (Inl PathRequired, s1) \<and>
         (local_files s localPath \<noteq> None \<longrightarrow>
            performFileUpload localPath remotePath s = (Inl PathRequired, s1)))) \<and>
   (remotePath \<noteq> [] \<and> length remotePath \<le> 0x5F \<and>
    sendFileCommand kFileCmdReset s1 = (Inr (), s2) \<longrightarrow>
      length (bytes_of remotePath @ replicate (0x60 - length remotePath) 0) = 0x60 \<and>
      prepareFilePath remotePath s1 =
        writeMemory kTerminalFilePathAddr
          (bytes_of remotePath @ replicate (0x60 - length remotePath) 0) 0x60 s2 \<and>
      sent_by s2 (snd (prepareFilePath remotePath s1)) =
        [UVCPWriteMemoryCmd (requestId s2 + 1) kTerminalFilePathAddr
           (bytes_of remotePath @ replicate (0x60 - length remotePath) 0) 0x60] \<and>
      writes_to kTerminalFilePathAddr
        (UVCPWriteMemoryCmd (requestId s2 + 1) kTerminalFilePathAddr
           (bytes_of remotePath @ replicate (0x60 - length remotePath) 0) 0x60) \<and>
      frame_data (UVCPWriteMemoryCmd (requestId s2 + 1) kTerminalFilePathAddr
           (bytes_of remotePath @ replicate (0x60 - length remotePath) 0) 0x60) =
        bytes_of remotePath @ replicate (0x60 - length remotePath) 0 \<and>
      (ensureSession s = (Inr (), s1) \<longrightarrow>
         (\<exists>rest. sent_by s2 (snd (performFileDownload remotePath localPath s)) =
            UVCPWriteMemoryCmd (requestId s2 + 1) kTerminalFilePathAddr
              (bytes_of remotePath @ replicate (0x60 - length remotePath) 0) 0x60 # rest) \<and>
         (local_files s localPath \<noteq> None \<longrightarrow>
            (\<exists>rest. sent_by s2 (snd (performFileUpload localPath remotePath s)) =
               UVCPWriteMemoryCmd (requestId s2 + 1) kTerminalFilePathAddr
                 (bytes_of remotePath @ replicate (0x60 - length remotePath) 0) 0x60 # rest)))) \<and>
   (0x60 \<le> length remotePath \<longrightarrow>
      isl (fst (prepareFilePath remotePath s1)) \<and>
      (sendFileCommand kFileCmdReset s1 = (Inr (), s2) \<longrightarrow>
         prepareFilePath remotePath s1 = (Inl PathTooLong, s2)) \<and>
      (ensureSession s = (Inr (), s1) \<longrightarrow>
         isl (fst (performFileDownload remotePath localPath s)) \<and>
         isl (fst (performFileUpload localPath remotePath s)) \<and>
         (sendFileCommand kFileCmdReset s1 = (Inr (), s2) \<longrightarrow>
            performFileDownload remotePath localPath s = (Inl PathTooLong, s2) \<and>
            (local_files s localPath \<noteq> None \<longrightarrow>
               performFileUpload localPath remotePath s = (Inl PathTooLong, s2)))))"
proof (intro conjI impI)
  assume e: "remotePath = []"
  then show 1: "prepareFilePath remotePath s1 = (Inl PathRequired, s1)"
    by (simp add: prepareFilePath_def)
  assume s: "ensureSession s = (Inr (), s1)"
  from transfer_path_failure(1) [OF s 1]
  show "performFileDownload remotePath localPath s = (Inl PathRequired, s1)" .
  assume "local_files s localPath \<noteq> None"
  from transfer_path_failure(2) [OF s 1 this]
  show "performFileUpload localPath remotePath s = (Inl PathRequired, s1)" .
next
  let ?staged = "bytes_of remotePath @ replicate (0x60 - length remotePath) 0"
  let ?f = "UVCPWriteMemoryCmd (requestId s2 + 1) kTerminalFilePathAddr ?staged 0x60"
  assume a: "remotePath \<noteq> [] \<and> length remotePath \<le> 0x5F \<and>
    sendFileCommand kFileCmdReset s1 = (Inr (), s2)"
  then show len: "length ?staged = 0x60"
    by (simp add: bytes_of_def)
  from a len show eq: "prepareFilePath remotePath s1 =
        writeMemory kTerminalFilePathAddr ?staged 0x60 s2"
    by (simp add: prepareFilePath_def kTerminalFilePathCapacity_def Let_def)
  from a have c: "claimed s2"
    by (auto dest: sendFileCommand_Inr_claimed)
  obtain r3 s3 where w: "writeMemory kTerminalFilePathAddr ?staged 0x60 s2 = (r3, s3)"
    by (cases "writeMemory kTerminalFilePathAddr ?staged 0x60 s2")
  from writeMemory_log [OF w] c have log3: "bulk_out_log s3 = bulk_out_log s2 @ [?f]"
    by simp
  with eq w show "sent_by s2 (snd (prepareFilePath remotePath s1)) = [?f]"
    by (simp add: sent_by_def)
  show "writes_to kTerminalFilePathAddr ?f"
    by (simp add: writes_to_def write_cmd_parse)
  from map_buf_at_all [of ?staged] len
  show "frame_data ?f = ?staged"
    by (simp add: write_cmd_parse)
  assume s: "ensureSession s = (Inr (), s1)"
  from eq w have p: "prepareFilePath remotePath s1 = (r3, s3)" by simp
  have "steps request_write s3 (snd (performFileDownload remotePath localPath s))"
    by (rule performFileDownload_after_path
          [OF s p, of localPath "fst (performFileDownload remotePath localPath s)"]) simp
  then obtain new where "bulk_out_log (snd (performFileDownload remotePath localPath s)) =
      bulk_out_log s3 @ new"
    by (auto simp: steps_def)
  with log3 show "\<exists>rest. sent_by s2 (snd (performFileDownload remotePath localPath s)) = ?f # rest"
    by (simp add: sent_by_def)
  assume "local_files s localPath \<noteq> None"
  then obtain content where l: "local_files s localPath = Some content" by auto
  have "steps request_write s3 (snd (performFileUpload localPath remotePath s))"
    by (rule performFileUpload_after_path
          [OF l s p, of "fst (performFileUpload localPath remotePath s)"]) simp
  then obtain new where "bulk_out_log (snd (performFileUpload localPath remotePath s)) =
      bulk_out_log s3 @ new"
    by (auto simp: steps_def)
  with log3 show "\<exists>rest. sent_by s2 (snd (performFileUpload localPath remotePath s)) = ?f # rest"
    by (simp add: sent_by_def)
next
  assume l: "0x60 \<le> length remotePath"
  then have ne: "remotePath \<noteq> []" by auto
  obtain r1 s2' where 1: "sendFileCommand kFileCmdReset s1 = (r1, s2')"
    by (cases "sendFileCommand kFileCmdReset s1")
  from l ne 1 show isl: "isl (fst (prepareFilePath remotePath s1))"
    by (cases r1) (simp_all add: prepareFilePath_def kTerminalFilePathCapacity_def)
  {
    assume "sendFileCommand kFileCmdReset s1 = (Inr (), s2)"
    with l ne show "prepareFilePath remotePath s1 = (Inl PathTooLong, s2)"
      by (simp add: prepareFilePath_def kTerminalFilePathCapacity_def)
  }
  assume s: "ensureSession s = (Inr (), s1)"
  from transfer_path_isl [OF s isl]
  show "isl (fst (performFileDownload remotePath localPath s))"
    and "isl (fst (performFileUpload localPath remotePath s))" .
  assume "sendFileCommand kFileCmdReset s1 = (Inr (), s2)"
  with l ne have p: "prepareFilePath remotePath s1 = (Inl PathTooLong, s2)"
    by (simp add: prepareFilePath_def kTerminalFilePathCapacity_def)
  from transfer_path_failure(1) [OF s p]
  show "performFileDownload remotePath localPath s = (Inl PathTooLong, s2)" .
  assume "local_files s localPath \<noteq> None"
  from transfer_path_failure(2) [OF s p this]
  show "performFileUpload localPath remotePath s = (Inl PathTooLong, s2)" .
qed

text \<open>A device with its session ready, which acknowledges the Reset command and the
  write of the path, and then answers no more; the local file \<open>b\<close> can be read.\<close>

definition path_device :: sys where
  "path_device = (fresh (header_answers @
     [(0, InData (UVCPReadMemoryAck 3 (le32 256))),
      (0, InData (UVCPReadMemoryAck 4 (le32 1))),
      (0, InData (UVCPReadMemoryAck 5 (le32 1))),
      (0, InData (UVCPWriteMemoryAck 6 4)),
      (0, InData (UVCPWriteMemoryAck 7 0x60))]))
     \<lparr>local_files := (\<lambda>p. if p = ''b'' then Some [1, 2, 3] else None)\<rparr>"

definition path_device_session :: sys where
  "path_device_session = snd (ensureSession path_device)"

definition path_device_reset :: sys where
  "path_device_reset = snd (sendFileCommand kFileCmdReset path_device_session)"

lemma path_device_run:
  "ensureSession path_device = (Inr (), path_device_session)"
  "sendFileCommand kFileCmdReset path_device_session = (Inr (), path_device_reset)"
  "claimed path_device_reset"
  "requestId path_device_reset = 6"
  "bulk_out_ok path_device_reset (length (bulk_out_log path_device_reset))"
  "bulk_in_script path_device_reset = [(0, InData (UVCPWriteMemoryAck 7 0x60))]"
  "local_files path_device ''b'' \<noteq> None"
  by (simp_all add: path_device_reset_def path_device_session_def path_device_def
        sendFileCommand_def kFileCmdReset_def session_defs run_defs addr_defs eval_defs ctrl_defs)

theorem transfer_path_lengths_witness:
  "ensureSession path_device = (Inr (), path_device_session) \<and>
   sendFileCommand kFileCmdReset path_device_session = (Inr (), path_device_reset) \<and>
   local_files path_device ''b'' \<noteq> None \<and>
   performFileDownload [] ''out'' path_device = (Inl PathRequired, path_device_session) \<and>
   performFileUpload ''b'' [] path_device = (Inl PathRequired, path_device_session) \<and>
   length (replicate 0x5F (CHR ''a'')) = 0x5F \<and>
   fst (prepareFilePath (replicate 0x5F (CHR ''a'')) path_device_session) = Inr () \<and>
   (\<exists>rest. sent_by path_device_reset
       (snd (performFileDownload (replicate 0x5F (CHR ''a'')) ''out'' path_device)) =
      UVCPWriteMemoryCmd 7 kTerminalFilePathAddr (replicate 0x5F 0x61 @ [0]) 0x60 # rest) \<and>
   (\<exists>rest. sent_by path_device_reset
       (snd (performFileUpload ''b'' (replicate 0x5F (CHR ''a'')) path_device)) =
      UVCPWriteMemoryCmd 7 kTerminalFilePathAddr (replicate 0x5F 0x61 @ [0]) 0x60 # rest) \<and>
   frame_data (UVCPWriteMemoryCmd 7 kTerminalFilePathAddr (replicate 0x5F 0x61 @ [0]) 0x60) =
     replicate 0x5F 0x61 @ [0] \<and>
   length (replicate 0x60 (CHR ''a'')) = 0x60 \<and>
   performFileDownload (replicate 0x60 (CHR ''a'')) ''out'' path_device =
     (Inl PathTooLong, path_device_reset) \<and>
   performFileUpload ''b'' (replicate 0x60 (CHR ''a'')) path_device =
     (Inl PathTooLong, path_device_reset)"
proof -
  let ?p = "replicate 0x5F (CHR ''a'')"
  let ?staged = "bytes_of ?p @ replicate (0x60 - length ?p) 0"
  note run = path_device_run
  from transfer_path_lengths [of "[]" path_device_session path_device "''out''"] run(1)
  have 1: "performFileDownload [] ''out'' path_device = (Inl PathRequired, path_device_session)"
    by simp
  from transfer_path_lengths [of "[]" path_device_session path_device "''b''"] run(1,7)
  have u1: "performFileUpload ''b'' [] path_device = (Inl PathRequired, path_device_session)"
    by simp
  have ne: "?p \<noteq> []" by (simp add: replicate_empty)
  have st: "?staged = replicate 0x5F 0x61 @ [0]"
    by (simp add: bytes_of_def)
  from transfer_path_lengths [of ?p path_device_session path_device "''out''" path_device_reset]
    run(1,2,4) ne
  have 2: "prepareFilePath ?p path_device_session =
             writeMemory kTerminalFilePathAddr ?staged 0x60 path_device_reset"
    and 3: "\<exists>rest. sent_by path_device_reset (snd (performFileDownload ?p ''out'' path_device)) =
              UVCPWriteMemoryCmd 7 kTerminalFilePathAddr ?staged 0x60 # rest"
    and d3: "frame_data (UVCPWriteMemoryCmd 7 kTerminalFilePathAddr ?staged 0x60) = ?staged"
    by simp_all
  from transfer_path_lengths [of ?p path_device_session path_device "''b''" path_device_reset]
    run(1,2,4,7) ne
  have u3: "\<exists>rest. sent_by path_device_reset (snd (performFileUpload ''b'' ?p path_device)) =
              UVCPWriteMemoryCmd 7 kTerminalFilePathAddr ?staged 0x60 # rest"
    by simp
  have ack: "write_ack_for 7 (UVCPWriteMemoryAck 7 0x60)"
    "ack_bytes_written (UVCPWriteMemoryAck 7 0x60) = 0x60"
    by (simp_all add: write_ack_for_def eval_defs)
  have 4: "fst (writeMemory kTerminalFilePathAddr ?staged 0x60 path_device_reset) = Inr ()"
    by (subst writeMemory_started)
       (simp_all add: run writeMemory_loop_ack [OF _ ack(1)] ack(2))
  from transfer_path_lengths
         [of "replicate 0x60 (CHR ''a'')" path_device_session path_device "''out''"
             path_device_reset]
    run(1,2)
  have 5: "performFileDownload (replicate 0x60 (CHR ''a'')) ''out'' path_device =
     (Inl PathTooLong, path_device_reset)"
    by simp
  from transfer_path_lengths
         [of "replicate 0x60 (CHR ''a'')" path_device_session path_device "''b''"
             path_device_reset]
    run(1,2,7)
  have u5: "performFileUpload ''b'' (replicate 0x60 (CHR ''a'')) path_device =
     (Inl PathTooLong, path_device_reset)"
    by simp
  from run(1,2,7) 1 u1 2 3 d3 u3 4 5 u5 show ?thesis
    by (simp only: st) simp
qed

text \<open>
  The claim as it stands fails for a transfer with an empty path on a device that is
  locked, for a client that has a password: the session is set up first, so the password
  has gone to AuthBuf, 1 to AuthCmd and the start word to Status/Control by the time
  the path is refused.  For a client without a password the transfer fails with
  \<open>AuthRequired\<close>, and an upload of a local file that cannot be opened with
  \<open>LocalOpenFailed\<close>, whatever the path.
\<close>

definition authenticating_device :: sys where
  "authenticating_device = setPassword ''pw'' (fresh (header_answers @
     [(0, InData (UVCPReadMemoryAck 3 (le32 256))),
      (0, InData (UVCPReadMemoryAck 4 (le32 0))),
      (0, InData (UVCPWriteMemoryAck 5 2)),
      (0, InData (UVCPWriteMemoryAck 6 4)),
      (0, InData (UVCPReadMemoryAck 7 (le32 1))),
      (0, InData (UVCPReadMemoryAck 8 (le32 0))),
      (0, InData (UVCPWriteMemoryAck 9 4)),
      (0, InData (UVCPReadMemoryAck 10 (le32 1)))]))"

theorem empty_path_after_session_counterexample:
  "fst (performFileDownload [] ''out'' authenticating_device) = Inl PathRequired \<and>
   sent_by authenticating_device (snd (performFileDownload [] ''out'' authenticating_device)) =
     [UVCPReadMemoryCmd 1 kTerminalBaseAddr 8, UVCPReadMemoryCmd 2 kTerminalVersionAddr 4,
      UVCPReadMemoryCmd 3 kTerminalChunkHintAddr 4, UVCPReadMemoryCmd 4 kTerminalAuthStatusAddr 4,
      UVCPWriteMemoryCmd 5 kTerminalAuthBufAddr (bytes_of ''pw'') 2,
      UVCPWriteMemoryCmd 6 kTerminalAuthCmdAddr (le32 1) 4,
      UVCPReadMemoryCmd 7 kTerminalAuthStatusAddr 4, UVCPReadMemoryCmd 8 kTerminalStatusAddr 4,
      UVCPWriteMemoryCmd 9 kTerminalStatusAddr (le32 49) 4,
      UVCPReadMemoryCmd 10 kTerminalStatusAddr 4] \<and>
   writes_to kTerminalAuthBufAddr (UVCPWriteMemoryCmd 5 kTerminalAuthBufAddr (bytes_of ''pw'') 2) \<and>
   writes_to kTerminalAuthCmdAddr (UVCPWriteMemoryCmd 6 kTerminalAuthCmdAddr (le32 1) 4) \<and>
   writes_to kTerminalStatusAddr (UVCPWriteMemoryCmd 9 kTerminalStatusAddr (le32 49) 4) \<and>
   fst (performFileDownload [] ''out''
          (fresh (header_answers @
             [(0, InData (UVCPReadMemoryAck 3 (le32 256))),
              (0, InData (UVCPReadMemoryAck 4 (le32 0)))]))) = Inl AuthRequired \<and>
   fst (performFileUpload ''missing'' [] (fresh [])) = Inl LocalOpenFailed"
proof -
  have 1: "fst (performFileDownload [] ''out'' authenticating_device) = Inl PathRequired"
    "sent_by authenticating_device (snd (performFileDownload [] ''out'' authenticating_device)) =
     [UVCPReadMemoryCmd 1 kTerminalBaseAddr 8, UVCPReadMemoryCmd 2 kTerminalVersionAddr 4,
      UVCPReadMemoryCmd 3 kTerminalChunkHintAddr 4, UVCPReadMemoryCmd 4 kTerminalAuthStatusAddr 4,
      UVCPWriteMemoryCmd 5 kTerminalAuthBufAddr (bytes_of ''pw'') 2,
      UVCPWriteMemoryCmd 6 kTerminalAuthCmdAddr (le32 1) 4,
      UVCPReadMemoryCmd 7 kTerminalAuthStatusAddr 4, UVCPReadMemoryCmd 8 kTerminalStatusAddr 4,
      UVCPWriteMemoryCmd 9 kTerminalStatusAddr (le32 49) 4,
      UVCPReadMemoryCmd 10 kTerminalStatusAddr 4]"
    by (simp_all add: sent_by_def authenticating_device_def performFileDownload_def
          prepareFilePath_def session_defs run_defs addr_defs eval_defs ctrl_defs)
  have 2: "fst (performFileDownload [] ''out''
          (fresh (header_answers @
             [(0, InData (UVCPReadMemoryAck 3 (le32 256))),
              (0, InData (UVCPReadMemoryAck 4 (le32 0)))]))) = Inl AuthRequired"
    by (simp add: performFileDownload_def session_defs run_defs addr_defs eval_defs ctrl_defs)
  have 3: "fst (performFileUpload ''missing'' [] (fresh [])) = Inl LocalOpenFailed"
    by (simp add: performFileUpload_def fresh_def)
  from 1 2 3 show ?thesis
    by (simp add: writes_to_def write_cmd_parse)
qed

subsection \<open>The FileData window\<close>

definition reads_from :: "u32 \<Rightarrow> u8 list \<Rightarrow> bool" where
  "reads_from a f = (hdr_command f = COMMAND_READ_MEMORY_CMD \<and> frame_address f = le64 (ucast a))"

definition frame_read_size :: "u8 list \<Rightarrow> u16" where
  "frame_read_size f = rd16 f 22"

lemma rd16_le16: "ucast (ucast v :: u8) OR push_bit 8 (ucast (ucast (drop_bit 8 v) :: u8)) = (v :: u16)"
  apply (rule bit_word_eqI)
  apply (auto simp: bit_simps)
  done

lemma read_cmd_parse:
  "reads_from a (UVCPReadMemoryCmd i a n)"
  "frame_read_size (UVCPReadMemoryCmd i a n) = n"
  by (simp_all add: reads_from_def frame_read_size_def frame_address_def UVCPReadMemoryCmd_def
        UVCPHeader_def le16_def le32_def le64_def hdr_command_def rd16_def buf_at_def
        COMMAND_READ_MEMORY_CMD_def rd16_le16)

lemma file_data_write_bound:
  assumes "host_request (request_write pw e) f" and "writes_to kTerminalFileDataAddr f"
  shows "length (frame_data f) \<le> 0x40"
proof -
  from assms obtain i a d n where f: "f = UVCPWriteMemoryCmd i a d n"
    and w: "request_write pw e a d n"
    by (auto simp: host_request_def writes_to_def read_cmd_not_write)
  from assms(2) f have a: "le64 (ucast a) = le64 (ucast kTerminalFileDataAddr)"
    by (simp add: writes_to_def write_cmd_parse)
  have ne: "le64 (ucast x) \<noteq> le64 (ucast kTerminalFileDataAddr)"
    if "x \<in> {kTerminalAuthBufAddr, kTerminalAuthCmdAddr, kTerminalStatusAddr,
              kTerminalFileCmdAddr, kTerminalFilePathAddr, kTerminalDataAddr}" for x
    using that by (auto simp: le64_def addr_defs)
  from w a ne have "d \<noteq> [] \<and> length d \<le> kTerminalFileDataWindow \<and> n = word_of_nat (length d)"
    unfolding request_write_def session_write_def by auto
  then have "unat n \<le> 0x40"
    by (simp add: kTerminalFileDataWindow_def unat_of_nat)
  with f show ?thesis by (simp add: write_cmd_parse)
qed

text \<open>
  \<^bold>\<open>C7\<close> (amended).  Every write of \<^verbatim>\<open>performFileUpload\<close> to the FileData window
  carries at most 0x40 bytes.  In the download loop, whatever turn it is in, a report
  of \<open>avail\<close> readable bytes by FileDataAvail, from 1 up to the 0xFFFF that the size of
  a read can hold, is followed by a read of the FileData window that asks for exactly
  \<open>avail\<close> bytes: as many as the device reported, and so at most 0x40 only where the
  report is at most 0x40.
\<close>

theorem file_window_transactions:
  "(\<forall>f \<in> set (sent_by s (snd (performFileUpload localPath remotePath s))).
      writes_to kTerminalFileDataAddr f \<longrightarrow> length (frame_data f) \<le> 0x40) \<and>
   (readFileDataAvail s = (Inr avail, s1) \<and> avail \<noteq> 0 \<and> unat avail < 0x10000 \<longrightarrow>
      (\<exists>rest. sent_by s1 (snd (download_loop localPath out s)) =
         UVCPReadMemoryCmd (requestId s1 + 1) kTerminalFileDataAddr (ucast avail) # rest) \<and>
      reads_from kTerminalFileDataAddr
        (UVCPReadMemoryCmd (requestId s1 + 1) kTerminalFileDataAddr (ucast avail)) \<and>
      unat (frame_read_size
        (UVCPReadMemoryCmd (requestId s1 + 1) kTerminalFileDataAddr (ucast avail))) = unat avail \<and>
      (unat (frame_read_size
        (UVCPReadMemoryCmd (requestId s1 + 1) kTerminalFileDataAddr (ucast avail))) \<le> 0x40)
        = (unat avail \<le> 0x40))"
proof (intro conjI ballI impI)
  fix f
  assume f: "f \<in> set (sent_by s (snd (performFileUpload localPath remotePath s)))"
    and w: "writes_to kTerminalFileDataAddr f"
  have "steps request_write s (snd (performFileUpload localPath remotePath s))"
    by (rule performFileUpload_steps [of _ _ s "fst (performFileUpload localPath remotePath s)"])
       simp
  from steps_sent_by(2) [OF this] f
  have "host_request (request_write (password s) (echoEnabled s)) f"
    by (simp add: list_all_iff)
  from file_data_write_bound [OF this w] show "length (frame_data f) \<le> 0x40" .
next
  let ?f = "UVCPReadMemoryCmd (requestId s1 + 1) kTerminalFileDataAddr (ucast avail)"
  assume a: "readFileDataAvail s = (Inr avail, s1) \<and> avail \<noteq> 0 \<and> unat avail < 0x10000"
  then have c: "claimed s1"
    by (auto simp: readFileDataAvail_def dest: readRegister_Inr_claimed)
  from a have fits: "unat (ucast avail :: u16) = unat avail"
    by (simp add: unsigned_ucast_eq take_bit_nat_eq_self unsigned_take_bit_eq)
  with a have nz: "(ucast avail :: u16) \<noteq> 0"
    by (metis unat_eq_0)
  obtain r2 s2 where b: "readMemory kTerminalFileDataAddr (ucast avail) s1 = (r2, s2)"
    by (cases "readMemory kTerminalFileDataAddr (ucast avail) s1")
  from readMemory_log [OF b] c nz have log2: "bulk_out_log s2 = bulk_out_log s1 @ [?f]" by simp
  obtain r s' where d: "download_loop localPath out s = (r, s')"
    by (cases "download_loop localPath out s")
  have "steps request_write s2 s'"
  proof (cases "\<exists>buffer. r2 = Inr buffer \<and>
          local_write_ok s2 localPath (length (out @ map (buf_at buffer) [0 ..< unat avail]))")
    case False
    with d a b have "s' = s2"
      by (subst (asm) download_loop.simps)
         (cases r2; auto simp: Let_def split: if_splits)
    then show ?thesis by simp
  next
    case True
    then obtain buffer where r2: "r2 = Inr buffer"
      and ok: "local_write_ok s2 localPath (length (out @ map (buf_at buffer) [0 ..< unat avail]))"
      by auto
    from d a b r2 ok
    have "download_loop localPath (out @ map (buf_at buffer) [0 ..< unat avail]) s2 = (r, s')"
      by (subst (asm) download_loop.simps) (simp add: Let_def)
    then show ?thesis by (rule download_loop_steps)
  qed
  then obtain new where "bulk_out_log s' = bulk_out_log s2 @ new"
    by (auto simp: steps_def)
  with log2 d show "\<exists>rest. sent_by s1 (snd (download_loop localPath out s)) = ?f # rest"
    by (simp add: sent_by_def)
  show "reads_from kTerminalFileDataAddr ?f" by (rule read_cmd_parse)
  from fits show size: "unat (frame_read_size ?f) = unat avail"
    by (simp only: read_cmd_parse)
  show "(unat (frame_read_size ?f) \<le> 0x40) = (unat avail \<le> 0x40)"
    by (simp only: size)
qed

text \<open>The claim as it stands fails on a device that reports 0x80 bytes in FileDataAvail:
  the read of the FileData window that follows asks for 0x80 bytes.\<close>

theorem download_read_unclamped_counterexample:
  "readFileDataAvail (fresh [(0, InData (UVCPReadMemoryAck 1 (le32 0x80)))]) =
     (Inr 0x80, (fresh [])\<lparr>requestId := 1,
        bulk_out_log := [UVCPReadMemoryCmd 1 kTerminalFileDataAvailAddr 4]\<rparr>) \<and>
   sent_by (fresh [(0, InData (UVCPReadMemoryAck 1 (le32 0x80)))])
     (snd (download_loop ''out'' [] (fresh [(0, InData (UVCPReadMemoryAck 1 (le32 0x80)))]))) =
     [UVCPReadMemoryCmd 1 kTerminalFileDataAvailAddr 4,
      UVCPReadMemoryCmd 2 kTerminalFileDataAddr 0x80] \<and>
   reads_from kTerminalFileDataAddr (UVCPReadMemoryCmd 2 kTerminalFileDataAddr 0x80) \<and>
   frame_read_size (UVCPReadMemoryCmd 2 kTerminalFileDataAddr 0x80) = 0x80 \<and>
   (0x40 :: nat) < unat (0x80 :: u16)"
proof -
  have "reads_from kTerminalFileDataAddr (UVCPReadMemoryCmd 2 kTerminalFileDataAddr 0x80)"
    "frame_read_size (UVCPReadMemoryCmd 2 kTerminalFileDataAddr 0x80) = 0x80"
    by (rule read_cmd_parse)+
  then show ?thesis
    by (simp add: download_loop.simps readFileDataAvail_def sent_by_def
          run_defs addr_defs eval_defs)
qed

definition upload_device :: sys where
  "upload_device = (fresh (header_answers @
     [(0, InData (UVCPReadMemoryAck 3 (le32 256))),
      (0, InData (UVCPReadMemoryAck 4 (le32 1))),
      (0, InData (UVCPReadMemoryAck 5 (le32 1))),
      (0, InData (UVCPWriteMemoryAck 6 4)),
      (0, InData (UVCPWriteMemoryAck 7 0x60)),
      (0, InData (UVCPWriteMemoryAck 8 4)),
      (0, InData (UVCPReadMemoryAck 9 (le32 16))),
      (0, InData (UVCPWriteMemoryAck 10 3)),
      (0, InData (UVCPReadMemoryAck 11 (le32 16))),
      (0, InData (UVCPWriteMemoryAck 12 4)),
      (0, InData (UVCPReadMemoryAck 13 (le32 0)))]))
     \<lparr>local_files := (\<lambda>p. if p = ''b'' then Some [1, 2, 3] else None)\<rparr>"

lemma upload_device_run:
  "fst (performFileUpload ''b'' ''/a'' upload_device) = Inr ()"
  "UVCPWriteMemoryCmd 10 kTerminalFileDataAddr [1, 2, 3] 3
     \<in> set (sent_by upload_device (snd (performFileUpload ''b'' ''/a'' upload_device)))"
  by (simp_all add: sent_by_def upload_device_def file_defs session_defs run_defs addr_defs eval_defs
        ctrl_defs)

theorem file_window_transactions_witness:
  "UVCPWriteMemoryCmd 10 kTerminalFileDataAddr [1, 2, 3] 3
     \<in> set (sent_by upload_device (snd (performFileUpload ''b'' ''/a'' upload_device))) \<and>
   writes_to kTerminalFileDataAddr (UVCPWriteMemoryCmd 10 kTerminalFileDataAddr [1, 2, 3] 3) \<and>
   length (frame_data (UVCPWriteMemoryCmd 10 kTerminalFileDataAddr [1, 2, 3] 3)) \<le> 0x40 \<and>
   readFileDataAvail (fresh [(0, InData (UVCPReadMemoryAck 1 (le32 0x20)))]) =
     (Inr 0x20, (fresh [])\<lparr>requestId := 1,
        bulk_out_log := [UVCPReadMemoryCmd 1 kTerminalFileDataAvailAddr 4]\<rparr>) \<and>
   unat (0x20 :: u32) < 0x10000 \<and>
   (\<exists>rest. sent_by ((fresh [])\<lparr>requestId := 1,
                 bulk_out_log := [UVCPReadMemoryCmd 1 kTerminalFileDataAvailAddr 4]\<rparr>)
       (snd (download_loop ''out'' [] (fresh [(0, InData (UVCPReadMemoryAck 1 (le32 0x20)))]))) =
     UVCPReadMemoryCmd 2 kTerminalFileDataAddr 0x20 # rest) \<and>
   unat (frame_read_size (UVCPReadMemoryCmd 2 kTerminalFileDataAddr 0x20)) = 0x20"
proof -
  let ?f = "UVCPWriteMemoryCmd 10 kTerminalFileDataAddr [1, 2, 3] 3"
  let ?s = "fresh [(0, InData (UVCPReadMemoryAck 1 (le32 0x20)))]"
  let ?s1 = "(fresh [])\<lparr>requestId := 1,
                bulk_out_log := [UVCPReadMemoryCmd 1 kTerminalFileDataAvailAddr 4]\<rparr>"
  note m = upload_device_run(2)
  have w: "writes_to kTerminalFileDataAddr ?f"
    by (simp add: writes_to_def write_cmd_parse)
  from file_window_transactions [of upload_device "''b''" "''/a''"] m w
  have 1: "length (frame_data ?f) \<le> 0x40" by blast
  have a: "readFileDataAvail ?s = (Inr 0x20, ?s1)"
    by (simp add: readFileDataAvail_def run_defs addr_defs eval_defs)
  have c: "claimed ?s1" "requestId ?s1 + 1 = 2" by (simp_all add: fresh_def)
  have u: "unat (0x20 :: u32) < 0x10000" by simp
  from file_window_transactions [of ?s "''out''" _ "0x20" ?s1 "[]"] a c u
  have 2: "(\<exists>rest. sent_by ?s1 (snd (download_loop ''out'' [] ?s)) =
              UVCPReadMemoryCmd 2 kTerminalFileDataAddr 0x20 # rest) \<and>
           unat (frame_read_size (UVCPReadMemoryCmd 2 kTerminalFileDataAddr 0x20)) = 0x20"
    by simp
  from m w 1 a u 2 show ?thesis by blast
qed

section \<open>The byte-wise loop\<close>

lemma interactive_bytes_exit_stays:
  "fst (interactive_bytes inBuf True toSend currentLine s) = True"
  by (induction inBuf arbitrary: toSend currentLine s) (simp_all add: Let_def)

lemma interactive_bytes_exit_line:
  assumes "ch = CHR 0x0D \<or> ch = CHR 0x0A"
  shows "interactive_bytes (ch # rest) exitRequested toSend ''exit'' s =
     interactive_bytes rest True [] []
       (snd (writeTerminalData (toSend @ [0x08, 0x08, 0x08, 0x08]) s))"
  using assms by (auto simp: kExitKey_def Let_def)

lemma interactive_bytes_append:
  "interactive_bytes (pre @ post) exitRequested toSend currentLine s =
     (case interactive_bytes pre exitRequested toSend currentLine s of
        (exitRequested', toSend', currentLine', s') \<Rightarrow>
          interactive_bytes post exitRequested' toSend' currentLine' s')"
  by (induction pre arbitrary: exitRequested toSend currentLine s) (simp_all add: Let_def)

lemma interactive_bytes_printable:
  assumes "isprint c"
  shows "interactive_bytes (c # rest) exitRequested toSend currentLine s =
     interactive_bytes rest exitRequested (toSend @ [byte_of c]) (currentLine @ [c]) s"
proof -
  from assms have "c \<noteq> kExitKey" "c \<noteq> CHR 0x0D" "c \<noteq> CHR 0x0A" "c \<noteq> CHR 0x7F" "c \<noteq> CHR 0x08"
    by (auto simp: isprint_def kExitKey_def Let_def)
  with assms show ?thesis by simp
qed

text \<open>
  \<^bold>\<open>C4\<close> (amended).  When a CR or LF arrives while the line buffer holds \<open>exit\<close>: the host
  writes what was pending from the same read followed by exactly four backspace bytes,
  and no newline, to the TTY Data register; the CR or LF is not forwarded and the line
  buffer is cleared; the exit stays requested for the rest of the read.  Wherever in
  the read the CR or LF stands (after the bytes \<open>pre\<close>, which leave \<open>exit\<close> in the line
  buffer), the loop ends with this turn: its result is the result of working through
  the bytes of this read, with no drain of the output and no further look at standard
  input.  Where the CR or LF is all that was read, the four backspaces are the only
  write and the loop ends in success.  The typed word is not held back: a printable
  character is put among the bytes to send as it is put into the line buffer.
\<close>

theorem exit_line_intercepted:
  assumes "ch = CHR 0x0D \<or> ch = CHR 0x0A"
  shows
    "interactive_bytes (ch # rest) exitRequested toSend ''exit'' s =
       interactive_bytes rest True [] []
         (snd (writeTerminalData (toSend @ [0x08, 0x08, 0x08, 0x08]) s)) \<and>
     fst (interactive_bytes (ch # rest) exitRequested toSend ''exit'' s) = True \<and>
     (claimed s \<and> length toSend \<le> 256 \<longrightarrow>
        sent_by s (snd (writeTerminalData (toSend @ [0x08, 0x08, 0x08, 0x08]) s)) =
          [UVCPWriteMemoryCmd (requestId s + 1) kTerminalDataAddr
             (toSend @ [0x08, 0x08, 0x08, 0x08]) (word_of_nat (length toSend + 4))] \<and>
        writes_to kTerminalDataAddr
          (UVCPWriteMemoryCmd (requestId s + 1) kTerminalDataAddr
             (toSend @ [0x08, 0x08, 0x08, 0x08]) (word_of_nat (length toSend + 4))) \<and>
        frame_data
          (UVCPWriteMemoryCmd (requestId s + 1) kTerminalDataAddr
             (toSend @ [0x08, 0x08, 0x08, 0x08]) (word_of_nat (length toSend + 4))) =
          toSend @ [0x08, 0x08, 0x08, 0x08]) \<and>
     (stdin_polls s = Input ms typed # ps \<and> take 256 typed = pre @ ch # rest \<and>
      interactive_bytes pre False [] lineBefore (s\<lparr>stdin_polls := ps, clock := clock s + ms\<rparr>) =
        (flag, pending, ''exit'', sLine) \<longrightarrow>
        interactiveLoopV2_loop lastPoll lineBefore s =
          Some (case interactive_input lineBefore s of
                  ((Inl e, line), s') \<Rightarrow> (Inl e, s')
                | ((Inr requested, line), s') \<Rightarrow> (Inr (), s'))) \<and>
     (stdin_polls s = Input ms [ch] # ps \<longrightarrow>
        interactiveLoopV2_loop lastPoll ''exit'' s =
          Some (Inr (), snd (writeTerminalData [0x08, 0x08, 0x08, 0x08]
                               (s\<lparr>stdin_polls := ps, clock := clock s + ms\<rparr>)))) \<and>
     (isprint c \<longrightarrow>
        interactive_bytes (c # rest) exitRequested toSend currentLine s =
          interactive_bytes rest exitRequested (toSend @ [byte_of c]) (currentLine @ [c]) s)"
proof (intro conjI impI)
  note line = interactive_bytes_exit_line [OF assms]
  show "interactive_bytes (ch # rest) exitRequested toSend ''exit'' s =
       interactive_bytes rest True [] []
         (snd (writeTerminalData (toSend @ [0x08, 0x08, 0x08, 0x08]) s))"
    by (rule line)
  show "fst (interactive_bytes (ch # rest) exitRequested toSend ''exit'' s) = True"
    by (simp only: line interactive_bytes_exit_stays)
  {
    assume c: "claimed s \<and> length toSend \<le> 256"
    let ?d = "toSend @ [0x08, 0x08, 0x08, 0x08]"
    let ?n = "word_of_nat (length toSend + 4) :: u16"
    obtain r s' where w: "writeMemory kTerminalDataAddr ?d ?n s = (r, s')"
      by (cases "writeMemory kTerminalDataAddr ?d ?n s")
    have n: "unat ?n = length toSend + 4"
      using c by (simp only: unat_of_nat) simp
    then have "?n \<noteq> 0" by auto
    with writeMemory_log [OF w] c w
    show "sent_by s (snd (writeTerminalData ?d s)) =
          [UVCPWriteMemoryCmd (requestId s + 1) kTerminalDataAddr ?d ?n]"
      by (simp add: sent_by_def writeTerminalData_def add.commute)
    show "writes_to kTerminalDataAddr (UVCPWriteMemoryCmd (requestId s + 1) kTerminalDataAddr ?d ?n)"
      by (simp add: writes_to_def write_cmd_parse)
    have "unat ?n = length ?d" by (simp only: n) simp
    then show "frame_data (UVCPWriteMemoryCmd (requestId s + 1) kTerminalDataAddr ?d ?n) = ?d"
      by (simp only: write_cmd_parse map_buf_at_all)
  }
  {
    assume a: "stdin_polls s = Input ms typed # ps \<and> take 256 typed = pre @ ch # rest \<and>
      interactive_bytes pre False [] lineBefore (s\<lparr>stdin_polls := ps, clock := clock s + ms\<rparr>) =
        (flag, pending, ''exit'', sLine)"
    let ?s1 = "s\<lparr>stdin_polls := ps, clock := clock s + ms\<rparr>"
    let ?s3 = "snd (writeTerminalData (pending @ [0x08, 0x08, 0x08, 0x08]) sLine)"
    obtain e ts cl s4 where b: "interactive_bytes rest True [] [] ?s3 = (e, ts, cl, s4)"
      by (cases "interactive_bytes rest True [] [] ?s3") auto
    from interactive_bytes_exit_stays [of rest "[]" "[]" ?s3] b
    have e: "e = True" by simp
    from a b have ib: "interactive_bytes (take 256 typed) False [] lineBefore ?s1 = (e, ts, cl, s4)"
      by (simp add: interactive_bytes_append interactive_bytes_exit_line [OF assms]
            del: interactive_bytes.simps)
    from a have ne: "take 256 typed \<noteq> []" by simp
    obtain r5 s5 where w: "writeTerminalData ts s4 = (r5, s5)"
      by (cases "writeTerminalData ts s4")
    from a ib e w ne show "interactiveLoopV2_loop lastPoll lineBefore s =
          Some (case interactive_input lineBefore s of
                  ((Inl e, line), s') \<Rightarrow> (Inl e, s')
                | ((Inr requested, line), s') \<Rightarrow> (Inr (), s'))"
      by (subst interactiveLoopV2_loop.simps)
         (cases r5; simp add: interactive_input_def del: interactive_bytes.simps)
  }
  {
    assume p: "stdin_polls s = Input ms [ch] # ps"
    let ?s1 = "s\<lparr>stdin_polls := ps, clock := clock s + ms\<rparr>"
    from interactive_bytes_exit_line [OF assms, of "[]" False "[]" ?s1]
    have "interactive_bytes [ch] False [] ''exit'' ?s1
        = (True, [], [], snd (writeTerminalData [0x08, 0x08, 0x08, 0x08] ?s1))"
      by simp
    with p show "interactiveLoopV2_loop lastPoll ''exit'' s =
          Some (Inr (), snd (writeTerminalData [0x08, 0x08, 0x08, 0x08] ?s1))"
      by (subst interactiveLoopV2_loop.simps)
         (simp add: interactive_input_def del: interactive_bytes.simps)
  }
  {
    assume "isprint c"
    then show "interactive_bytes (c # rest) exitRequested toSend currentLine s =
          interactive_bytes rest exitRequested (toSend @ [byte_of c]) (currentLine @ [c]) s"
      by (rule interactive_bytes_printable)
  }
qed

definition typing_device :: "string \<Rightarrow> sys" where
  "typing_device typed =
     (fresh [(0, InData (UVCPWriteMemoryAck 1 (word_of_nat (length typed + 3))))])
       \<lparr>stdin_polls := [Input 0 typed]\<rparr>"

theorem exit_line_intercepted_witness:
  "stdin_polls (typing_device [CHR 0x0D]) = [Input 0 [CHR 0x0D]] \<and>
   interactiveLoopV2_loop 0 ''exit'' (typing_device [CHR 0x0D]) =
     Some (Inr (), snd (writeTerminalData [0x08, 0x08, 0x08, 0x08]
                          ((typing_device [CHR 0x0D])\<lparr>stdin_polls := [], clock := 0\<rparr>))) \<and>
   claimed (typing_device [CHR 0x0D]) \<and>
   sent_by (typing_device [CHR 0x0D])
     (snd (writeTerminalData [0x08, 0x08, 0x08, 0x08] (typing_device [CHR 0x0D]))) =
     [UVCPWriteMemoryCmd 1 kTerminalDataAddr [0x08, 0x08, 0x08, 0x08] 4] \<and>
   frame_data (UVCPWriteMemoryCmd 1 kTerminalDataAddr [0x08, 0x08, 0x08, 0x08] 4) =
     [0x08, 0x08, 0x08, 0x08] \<and>
   stdin_polls (typing_device (''exit'' @ [CHR 0x0D])) = [Input 0 (''exit'' @ [CHR 0x0D])] \<and>
   interactive_bytes ''exit'' False [] []
       ((typing_device (''exit'' @ [CHR 0x0D]))\<lparr>stdin_polls := [], clock := 0\<rparr>) =
     (False, [0x65, 0x78, 0x69, 0x74], ''exit'',
      (typing_device (''exit'' @ [CHR 0x0D]))\<lparr>stdin_polls := [], clock := 0\<rparr>) \<and>
   interactiveLoopV2_loop 0 [] (typing_device (''exit'' @ [CHR 0x0D])) =
     Some (case interactive_input [] (typing_device (''exit'' @ [CHR 0x0D])) of
             ((Inl e, line), s') \<Rightarrow> (Inl e, s')
           | ((Inr requested, line), s') \<Rightarrow> (Inr (), s')) \<and>
   isprint (CHR ''e'') \<and>
   interactive_bytes ''e'' False [] ''x'' (typing_device []) =
     (False, [0x65], ''xe'', typing_device [])"
proof -
  let ?w = "typing_device [CHR 0x0D]"
  let ?v = "typing_device (''exit'' @ [CHR 0x0D])"
  let ?v1 = "?v\<lparr>stdin_polls := [], clock := 0\<rparr>"
  have p: "stdin_polls ?w = Input 0 [CHR 0x0D] # []" and c: "claimed ?w"
    and k: "clock ?w = 0" and i: "requestId ?w = 0"
    by (simp_all add: typing_device_def fresh_def)
  have e: "isprint (CHR ''e'')" "byte_of (CHR ''e'') = 0x65"
    by (simp_all add: isprint_def byte_of_def)
  from exit_line_intercepted [where ch = "CHR 0x0D" and c = "CHR ''e''" and rest = "[]"
      and exitRequested = False and toSend = "[]" and currentLine = "[]" and s = ?w and ms = 0
      and ps = "[]" and lastPoll = 0] p c k i
  have 1: "interactiveLoopV2_loop 0 ''exit'' ?w =
     Some (Inr (), snd (writeTerminalData [0x08, 0x08, 0x08, 0x08]
                          (?w\<lparr>stdin_polls := [], clock := 0\<rparr>)))"
    "sent_by ?w (snd (writeTerminalData [0x08, 0x08, 0x08, 0x08] ?w)) =
     [UVCPWriteMemoryCmd 1 kTerminalDataAddr [0x08, 0x08, 0x08, 0x08] 4]"
    "frame_data (UVCPWriteMemoryCmd 1 kTerminalDataAddr [0x08, 0x08, 0x08, 0x08] 4) =
     [0x08, 0x08, 0x08, 0x08]"
    by (auto simp del: interactive_bytes.simps)
  have q: "stdin_polls ?v = Input 0 (''exit'' @ [CHR 0x0D]) # []" and kv: "clock ?v + 0 = 0"
    by (simp_all add: typing_device_def fresh_def)
  have t: "take 256 (''exit'' @ [CHR 0x0D]) = ''exit'' @ CHR 0x0D # []" by simp
  have b: "interactive_bytes ''exit'' False [] [] ?v1 = (False, [0x65, 0x78, 0x69, 0x74], ''exit'', ?v1)"
    by (simp add: kExitKey_def isprint_def byte_of_def)
  have 3: "interactiveLoopV2_loop 0 [] ?v =
     Some (case interactive_input [] ?v of
             ((Inl e, line), s') \<Rightarrow> (Inl e, s')
           | ((Inr requested, line), s') \<Rightarrow> (Inr (), s'))"
    by (rule exit_line_intercepted [where ch = "CHR 0x0D" and rest = "[]" and s = ?v
          and ms = 0 and ps = "[]" and typed = "''exit'' @ [CHR 0x0D]" and pre = "''exit''"
          and lineBefore = "[]" and flag = False and pending = "[0x65, 0x78, 0x69, 0x74]"
          and sLine = ?v1 and lastPoll = 0,
          THEN conjunct2, THEN conjunct2, THEN conjunct2, THEN conjunct1, rule_format])
       (simp_all only: q t b kv simp_thms)
  from exit_line_intercepted [where ch = "CHR 0x0D" and c = "CHR ''e''" and rest = "[]"
      and exitRequested = False and toSend = "[]" and currentLine = "''x''"
      and s = "typing_device []"] e
  have 2: "interactive_bytes ''e'' False [] ''x'' (typing_device []) =
     (False, [0x65], ''xe'', typing_device [])"
    by (simp del: interactive_bytes.simps(2))
  from p c e(1) 1 2 3 q b show ?thesis by (simp del: interactive_bytes.simps)
qed

text \<open>
  The claim as it stands fails in two ways.  With \<open>exit\<close> in the line buffer and a CR
  read on its own, the host writes four backspaces and no newline.  With \<open>exit\<close> and
  the CR read together, the typed word goes out in the same write, in front of the
  backspaces.
\<close>

theorem exit_line_counterexample:
  "(\<exists>s'. interactiveLoopV2_loop 0 ''exit'' (typing_device [CHR 0x0D]) = Some (Inr (), s') \<and>
      sent_by (typing_device [CHR 0x0D]) s' =
        [UVCPWriteMemoryCmd 1 kTerminalDataAddr [0x08, 0x08, 0x08, 0x08] 4]) \<and>
   frame_data (UVCPWriteMemoryCmd 1 kTerminalDataAddr [0x08, 0x08, 0x08, 0x08] 4) =
     [0x08, 0x08, 0x08, 0x08] \<and>
   (\<exists>s'. interactiveLoopV2_loop 0 [] (typing_device (''exit'' @ [CHR 0x0D])) = Some (Inr (), s') \<and>
      sent_by (typing_device (''exit'' @ [CHR 0x0D])) s' =
        [UVCPWriteMemoryCmd 1 kTerminalDataAddr
           [0x65, 0x78, 0x69, 0x74, 0x08, 0x08, 0x08, 0x08] 8]) \<and>
   frame_data (UVCPWriteMemoryCmd 1 kTerminalDataAddr
                 [0x65, 0x78, 0x69, 0x74, 0x08, 0x08, 0x08, 0x08] 8) =
     [0x65, 0x78, 0x69, 0x74, 0x08, 0x08, 0x08, 0x08]"
proof -
  have d: "frame_data (UVCPWriteMemoryCmd 1 kTerminalDataAddr [0x08, 0x08, 0x08, 0x08] 4) =
     [0x08, 0x08, 0x08, 0x08]"
    "frame_data (UVCPWriteMemoryCmd 1 kTerminalDataAddr
                 [0x65, 0x78, 0x69, 0x74, 0x08, 0x08, 0x08, 0x08] 8) =
     [0x65, 0x78, 0x69, 0x74, 0x08, 0x08, 0x08, 0x08]"
    by (simp_all add: write_cmd_parse buf_at_def upt_rec)
  have 1: "\<exists>s'. interactiveLoopV2_loop 0 ''exit'' (typing_device [CHR 0x0D]) = Some (Inr (), s') \<and>
      sent_by (typing_device [CHR 0x0D]) s' =
        [UVCPWriteMemoryCmd 1 kTerminalDataAddr [0x08, 0x08, 0x08, 0x08] 4]"
    by (subst interactiveLoopV2_loop.simps)
       (simp add: interactive_input_def typing_device_def writeTerminalData_def kExitKey_def
          isprint_def byte_of_def sent_by_def run_defs addr_defs eval_defs)
  have 2: "\<exists>s'. interactiveLoopV2_loop 0 [] (typing_device (''exit'' @ [CHR 0x0D])) = Some (Inr (), s') \<and>
      sent_by (typing_device (''exit'' @ [CHR 0x0D])) s' =
        [UVCPWriteMemoryCmd 1 kTerminalDataAddr
           [0x65, 0x78, 0x69, 0x74, 0x08, 0x08, 0x08, 0x08] 8]"
    by (subst interactiveLoopV2_loop.simps)
       (simp add: interactive_input_def typing_device_def writeTerminalData_def kExitKey_def
          isprint_def byte_of_def sent_by_def run_defs addr_defs eval_defs)
  from d 1 2 show ?thesis by blast
qed

section \<open>The ways out of main\<close>

text \<open>
  A device that answers the probe, takes the reset, reports AuthStatus zero, accepts
  the password, reports AuthStatus one, and then answers no more; and one that answers
  the probe only.
\<close>

definition stalling_device :: sys where
  "stalling_device = fresh (header_answers @
     [(0, InData (UVCPReadMemoryAck 3 (le32 256))),
      (0, InData (UVCPWriteMemoryAck 4 4)),
      (0, InData (UVCPReadMemoryAck 5 (le32 0))),
      (0, InData (UVCPWriteMemoryAck 6 2)),
      (0, InData (UVCPWriteMemoryAck 7 4)),
      (0, InData (UVCPReadMemoryAck 8 (le32 1)))])"

definition probe_only_device :: sys where
  "probe_only_device = fresh (header_answers @ [(0, InData (UVCPReadMemoryAck 3 (le32 256)))])"

definition one_shot :: "bool \<Rightarrow> options" where
  "one_shot with_reset =
     \<lparr>interactive = False, interactiveMode = 2, resetSession = with_reset,
      singleCommand = ''uptime'', password_arg = ''pw''\<rparr>"

lemma auth_cmd_frames:
  "writes_to kTerminalAuthCmdAddr (UVCPWriteMemoryCmd i kTerminalAuthCmdAddr d n)"
  "\<not> writes_to kTerminalAuthCmdAddr (UVCPReadMemoryCmd i a n)"
  "\<not> writes_to kTerminalAuthCmdAddr (UVCPWriteMemoryCmd i kTerminalStatusAddr d n)"
  "\<not> writes_to kTerminalAuthCmdAddr (UVCPWriteMemoryCmd i kTerminalAuthBufAddr d n)"
  by (simp_all add: writes_to_def write_cmd_parse read_cmd_not_write le64_def addr_defs)

text \<open>
  \<^bold>\<open>C3.\<close>  \<^verbatim>\<open>main\<close> run with a reset requested against the first device: \<^verbatim>\<open>reset\<close> fails
  after the host has authenticated, \<^verbatim>\<open>main\<close> returns \<open>EXIT_FAILURE\<close> and releases the
  device, and the only write to AuthCmd in the whole run is the 1 of the
  authentication: no 0 was written.  Run without a reset against the second device,
  where the one-shot runner fails, it does write the 0 before it gives up.
\<close>

theorem reset_failure_leaves_unlocked:
  "(\<exists>s'. main (one_shot True) stalling_device = Some (EXIT_FAILURE, s') \<and> \<not> claimed s' \<and>
      filter (writes_to kTerminalAuthCmdAddr) (bulk_out_log s') =
        [UVCPWriteMemoryCmd 7 kTerminalAuthCmdAddr (le32 1) 4]) \<and>
   frame_data (UVCPWriteMemoryCmd 7 kTerminalAuthCmdAddr (le32 1) 4) = le32 1 \<and>
   le32 1 \<noteq> le32 0 \<and>
   (\<exists>s'. main (one_shot False) probe_only_device = Some (EXIT_FAILURE, s') \<and> \<not> claimed s' \<and>
      filter (writes_to kTerminalAuthCmdAddr) (bulk_out_log s') =
        [UVCPWriteMemoryCmd 5 kTerminalAuthCmdAddr (le32 0) 4]) \<and>
   frame_data (UVCPWriteMemoryCmd 5 kTerminalAuthCmdAddr (le32 0) 4) = le32 0"
proof -
  have log1: "bulk_out_log (snd (reset (setEchoEnabled False (setPassword ''pw''
                 (snd (initialize stalling_device)))))) =
     [UVCPReadMemoryCmd 1 kTerminalBaseAddr 8, UVCPReadMemoryCmd 2 kTerminalVersionAddr 4,
      UVCPReadMemoryCmd 3 kTerminalChunkHintAddr 4,
      UVCPWriteMemoryCmd 4 kTerminalStatusAddr (le32 82) 4,
      UVCPReadMemoryCmd 5 kTerminalAuthStatusAddr 4,
      UVCPWriteMemoryCmd 6 kTerminalAuthBufAddr (bytes_of ''pw'') 2,
      UVCPWriteMemoryCmd 7 kTerminalAuthCmdAddr (le32 1) 4,
      UVCPReadMemoryCmd 8 kTerminalAuthStatusAddr 4,
      UVCPReadMemoryCmd 9 kTerminalStatusAddr 4]"
    and r1: "fst (initialize stalling_device) = Inr ()"
      "isl (fst (reset (setEchoEnabled False (setPassword ''pw''
                 (snd (initialize stalling_device))))))"
    by (simp_all add: stalling_device_def session_defs setEchoEnabled_def run_defs addr_defs
          eval_defs ctrl_defs)
  have 1: "\<exists>s'. main (one_shot True) stalling_device = Some (EXIT_FAILURE, s') \<and> \<not> claimed s' \<and>
      filter (writes_to kTerminalAuthCmdAddr) (bulk_out_log s') =
        [UVCPWriteMemoryCmd 7 kTerminalAuthCmdAddr (le32 1) 4]"
    using r1 log1
    by (cases "initialize stalling_device";
        cases "reset (setEchoEnabled False (setPassword ''pw'' (snd (initialize stalling_device))))")
       (auto simp: main_def one_shot_def Let_def shutdown_def auth_cmd_frames isl_def)
  let ?s3 = "setEchoEnabled False (setPassword ''pw'' (snd (initialize probe_only_device)))"
  have r2: "fst (initialize probe_only_device) = Inr ()"
    and log2: "bulk_out_log (snd (lock (snd (runOnce ''uptime'' ?s3)))) =
     [UVCPReadMemoryCmd 1 kTerminalBaseAddr 8, UVCPReadMemoryCmd 2 kTerminalVersionAddr 4,
      UVCPReadMemoryCmd 3 kTerminalChunkHintAddr 4,
      UVCPReadMemoryCmd 4 kTerminalAuthStatusAddr 4,
      UVCPWriteMemoryCmd 5 kTerminalAuthCmdAddr (le32 0) 4]"
    and l2: "isl (fst (lock (snd (runOnce ''uptime'' ?s3))))"
    by (simp_all add: probe_only_device_def session_defs setEchoEnabled_def run_defs addr_defs
          eval_defs ctrl_defs lock_def runOnce_def handleFileTransferCommand_def
          splitTokens_def isspace_def sendCommand_def)
  have 2: "\<exists>s'. main (one_shot False) probe_only_device = Some (EXIT_FAILURE, s') \<and> \<not> claimed s' \<and>
      filter (writes_to kTerminalAuthCmdAddr) (bulk_out_log s') =
        [UVCPWriteMemoryCmd 5 kTerminalAuthCmdAddr (le32 0) 4]"
    using r2 log2 l2
    by (cases "initialize probe_only_device"; cases "runOnce ''uptime'' ?s3";
        cases "lock (snd (runOnce ''uptime'' ?s3))")
       (auto simp: main_def one_shot_def Let_def shutdown_def auth_cmd_frames isl_def)
  have d: "frame_data (UVCPWriteMemoryCmd 7 kTerminalAuthCmdAddr (le32 1) 4) = le32 1"
    "frame_data (UVCPWriteMemoryCmd 5 kTerminalAuthCmdAddr (le32 0) 4) = le32 0"
    by (simp_all add: write_cmd_parse map_buf_at_le32)
  have ne: "le32 1 \<noteq> le32 0" by (simp add: le32_def)
  from 1 2 d ne show ?thesis by blast
qed

end
